theory Spec2Isabelle
  imports Complex_Main
begin

text \<open>
  A model of the turn-resolution engine of Knight Commander: facing arcs, the location
  grid with its damage and critical effects, the resolution of a single attack, line of
  sight through terrain and the pathfinder of the movement steps. Every function of the
  engine that is modelled keeps its name. Functions that mutate a Knight in place take
  the Knight and return the new one.

  JavaScript numbers that hold coordinates and angles are modelled as real numbers;
  lattice coordinates, armour points, dice and damage are modelled as integers.
\<close>

section \<open>Geometry and facing\<close>

text \<open>The module \<^verbatim>\<open>facing-arcs\<close> (in \<^verbatim>\<open>src/unnamed/part_002\<close>).\<close>

record Vec2 =
  vx :: real
  vy :: real

datatype FacingArc = FRONT | RIGHT | REAR | LEFT

text \<open>The remainder operator \<^verbatim>\<open>%\<close> of JavaScript: the quotient is truncated toward
  zero, so the result carries the sign of the dividend.\<close>

definition trunc :: "real \<Rightarrow> int" where
  "trunc r = (if 0 \<le> r then \<lfloor>r\<rfloor> else - \<lfloor>- r\<rfloor>)"

definition js_rem :: "real \<Rightarrow> real \<Rightarrow> real" where
  "js_rem a n = a - n * of_int (trunc (a / n))"

text \<open>\<^verbatim>\<open>Math.atan2(y, x)\<close> on real numbers, with values in \<open>(-\<pi>, \<pi>]\<close>.\<close>

definition atan2 :: "real \<Rightarrow> real \<Rightarrow> real" where
  "atan2 y x =
     (if 0 < x then arctan (y / x)
      else if x < 0 then (if 0 \<le> y then arctan (y / x) + pi else arctan (y / x) - pi)
      else if 0 < y then pi / 2
      else if y < 0 then - (pi / 2)
      else 0)"

definition normDeg :: "real \<Rightarrow> real" where
  "normDeg d = js_rem (js_rem d 360 + 360) 360"

definition bearingDeg :: "Vec2 \<Rightarrow> Vec2 \<Rightarrow> real" where
  "bearingDeg from to = normDeg ((atan2 (vy to - vy from) (vx to - vx from) * 180) / pi)"

definition normalizeDeltaDeg :: "real \<Rightarrow> real" where
  "normalizeDeltaDeg delta =
     (let d = js_rem (js_rem (delta + 180) 360 + 360) 360 - 180
      in if d = - 180 then 180 else d)"

definition incomingArc :: "Vec2 \<Rightarrow> real \<Rightarrow> Vec2 \<Rightarrow> FacingArc" where
  "incomingArc defenderPos defenderFacingDeg attackerPos =
     (let b = bearingDeg defenderPos attackerPos;
          delta = normalizeDeltaDeg (b - normDeg defenderFacingDeg)
      in if \<bar>delta\<bar> \<le> 45 then FRONT
         else if \<bar>delta\<bar> \<ge> 135 then REAR
         else if delta > 0 then RIGHT else LEFT)"


section \<open>Location grid\<close>

text \<open>
  The module \<^verbatim>\<open>grid\<close> (in \<^verbatim>\<open>src/src/engine/terrain.ts\<close>, after the terrain code).
  A \<^verbatim>\<open>GridCell\<close>: The fields \<^verbatim>\<open>id\<close>, \<^verbatim>\<open>x\<close>, \<^verbatim>\<open>y\<close> and \<^verbatim>\<open>group\<close> of the source are
  \<open>cid\<close>, \<open>cx\<close>, \<open>cy\<close> and \<open>cgroup\<close> here. The type \<^verbatim>\<open>LocationGroup\<close> is the numbers 1 to 8.
\<close>

record GridCell =
  cid :: string
  cx :: int
  cy :: int
  cgroup :: nat
  armorPoints :: int
  maxArmorPoints :: int
  criticallyDamaged :: bool

record Grid =
  gwidth :: int
  gheight :: int
  cells :: "GridCell list"

text \<open>
  \<^verbatim>\<open>cells.find(p)\<close> returns a reference to the first element that satisfies \<^verbatim>\<open>p\<close>. Such a
  reference is modelled as the position of that element in the list, so that a later
  write through the reference is a list update at that position.
\<close>

fun findIndex :: "('a \<Rightarrow> bool) \<Rightarrow> 'a list \<Rightarrow> nat option" where
  "findIndex P [] = None"
| "findIndex P (c # cs) = (if P c then Some 0 else map_option Suc (findIndex P cs))"

section \<open>Knight state and critical effects\<close>

text \<open>The module \<^verbatim>\<open>criticals-core\<close> (at the end of \<^verbatim>\<open>src/src/engine/execute-turn.ts\<close>).
  The fields \<^verbatim>\<open>name\<close> of a weapon and of a Knight are \<open>wname\<close> and \<open>kname\<close>.\<close>

datatype WeaponMount = CARAPACE | TORSO | ARM_LEFT | ARM_RIGHT | OTHER

record MountedWeapon =
  wname :: string
  mount :: WeaponMount
  disabled :: bool

record KnightState =
  kname :: string
  grid :: Grid
  maxActionPoints :: int
  movementPenalty :: int
  canRotateIonShields :: bool
  weapons :: "MountedWeapon list"

text \<open>\<^verbatim>\<open>knight.weapons.filter(w => w.mount === m).forEach(w => (w.disabled = true))\<close>\<close>

definition disableMount :: "WeaponMount \<Rightarrow> MountedWeapon list \<Rightarrow> MountedWeapon list" where
  "disableMount m ws = map (\<lambda>w. if mount w = m then w\<lparr>disabled := True\<rparr> else w) ws"

definition applyCoreCriticalEffect :: "KnightState \<Rightarrow> nat \<Rightarrow> KnightState" where
  "applyCoreCriticalEffect knight g =
     (if g = 1 then knight\<lparr>weapons := disableMount CARAPACE (weapons knight)\<rparr>
      else if g = 2 then knight
      else if g = 3 then knight
      else if g = 4 then knight\<lparr>canRotateIonShields := False\<rparr>
      else if g = 5 then knight\<lparr>maxActionPoints := min (maxActionPoints knight) 2\<rparr>
      else if g = 6 then knight\<lparr>weapons := disableMount TORSO (weapons knight)\<rparr>
      else if g = 7 then knight
      else if g = 8 then knight\<lparr>movementPenalty := movementPenalty knight + 1\<rparr>
      else knight)"

definition updateArmDisablesIfNeeded :: "KnightState \<Rightarrow> KnightState" where
  "updateArmDisablesIfNeeded knight =
     (let group3Cells = filter (\<lambda>c. cgroup c = 3) (cells (grid knight));
          mid = (real_of_int (gwidth (grid knight)) - 1) / 2;
          leftArm = filter (\<lambda>c. real_of_int (cx c) < mid) group3Cells;
          rightArm = filter (\<lambda>c. real_of_int (cx c) > mid) group3Cells;
          leftBothCrit = (length leftArm \<ge> 2 \<and> list_all criticallyDamaged leftArm);
          rightBothCrit = (length rightArm \<ge> 2 \<and> list_all criticallyDamaged rightArm);
          knight1 = (if leftBothCrit
                     then knight\<lparr>weapons := disableMount ARM_LEFT (weapons knight)\<rparr>
                     else knight)
      in if rightBothCrit
         then knight1\<lparr>weapons := disableMount ARM_RIGHT (weapons knight1)\<rparr>
         else knight1)"

definition setCells :: "KnightState \<Rightarrow> GridCell list \<Rightarrow> KnightState" where
  "setCells knight cs = knight\<lparr>grid := (grid knight)\<lparr>cells := cs\<rparr>\<rparr>"

definition markCellCriticallyDamaged :: "KnightState \<Rightarrow> string \<Rightarrow> KnightState" where
  "markCellCriticallyDamaged knight cellId =
     (case findIndex (\<lambda>c. cid c = cellId) (cells (grid knight)) of
        None \<Rightarrow> knight
      | Some i \<Rightarrow>
          (let cell = cells (grid knight) ! i in
           if criticallyDamaged cell then knight
           else
             (let knight1 = setCells knight
                    ((cells (grid knight))[i := cell\<lparr>criticallyDamaged := True\<rparr>]);
                  knight2 = applyCoreCriticalEffect knight1 (cgroup cell)
              in if cgroup cell = 3 then updateArmDisablesIfNeeded knight2 else knight2)))"

section \<open>Damage model\<close>

text \<open>
  The module \<^verbatim>\<open>damage\<close> (at the end of \<^verbatim>\<open>src/unnamed/part_002\<close>). The argument \<^verbatim>\<open>cell\<close> of \<^verbatim>\<open>applyDamageToCell\<close> is a reference to an element of
  \<^verbatim>\<open>knight.grid.cells\<close>; it is given here as the position \<open>i\<close> of that element.
\<close>

definition applyDamageToCell :: "KnightState \<Rightarrow> nat \<Rightarrow> int \<Rightarrow> KnightState" where
  "applyDamageToCell knight i damage =
     (let cell = cells (grid knight) ! i in
      if criticallyDamaged cell then knight
      else
        (let ap' = max 0 (armorPoints cell - damage);
             knight1 = setCells knight ((cells (grid knight))[i := cell\<lparr>armorPoints := ap'\<rparr>])
         in if ap' = 0 then markCellCriticallyDamaged knight1 (cid cell) else knight1))"

definition isKnightDestroyed :: "KnightState \<Rightarrow> bool" where
  "isKnightDestroyed knight =
     (let critCount = length (filter criticallyDamaged (cells (grid knight)))
      in critCount \<ge> 6)"


section \<open>Weapon profiles and dice\<close>

text \<open>The types of \<^verbatim>\<open>src/src/engine/core-weapons.ts\<close> and the die of
  \<^verbatim>\<open>src/src/engine/dice-and-aim.ts\<close>. The field \<^verbatim>\<open>name\<close> of a profile is \<open>pname\<close>.\<close>

datatype DiceExpr = D3 | D6

datatype DamageProfile = Flat int | Dice DiceExpr

datatype WeaponAbility = INDIRECT

record WeaponProfile =
  pname :: string
  rangeInches :: real
  ap :: int
  damage :: DamageProfile
  scatter :: bool
  abilities :: "WeaponAbility list option"

text \<open>
  \<^verbatim>\<open>Math.random()\<close> reads hidden global state. The state is made explicit: a sequence of
  the numbers it returns and the count of those already consumed.
\<close>

record Rng =
  randoms :: "nat \<Rightarrow> real"
  used :: nat

definition rollD6 :: "Rng \<Rightarrow> int \<times> Rng" where
  "rollD6 g = (\<lfloor>randoms g (used g) * 6\<rfloor> + 1, g\<lparr>used := used g + 1\<rparr>)"

section \<open>Attack resolution\<close>

text \<open>The file \<^verbatim>\<open>src/src/engine/resolve-attack.ts\<close>. The fields of the logs and of the
  three outcomes carry a prefix that names the record.\<close>

datatype AttackType = SNAP | STANDARD | AIMED

record DiceOverrides =
  red :: "int option"
  blue :: "int option"
  ionSave :: "int option"
  save :: "int option"
  damageD6 :: "int option"
  damageD3 :: "int option"

datatype DirH = LEFT_H | RIGHT_H | HIT_H

datatype DirV = UP_V | DOWN_V | HIT_V

text \<open>
  The symbols of the scatter log are the string \<^verbatim>\<open>[+]\<close> or a bracketed run of one arrow
  character; they are kept as the arrow and the number of its repetitions.
\<close>

datatype Arrow = ArrowLeft | ArrowRight | ArrowUp | ArrowDown

datatype Symbol = Plus | Arrows Arrow nat

record ScatterLog =
  s_red :: int
  s_redRaw :: "int option"
  s_blue :: int
  s_horizSymbol :: Symbol
  s_vertSymbol :: Symbol
  s_horizShift :: int
  s_vertShift :: int

record IonSaveLog =
  i_attempted :: bool
  i_die :: int
  i_needed :: int
  i_success :: bool

record ArmourSaveLog =
  a_roll :: int
  a_die :: int
  a_needed :: int
  a_mods_ap :: int
  a_mods_cover :: bool

datatype SavedBy = ION | ARMOUR

record MissOutcome =
  m_targetCellId :: string
  m_finalCellId :: "string option"
  m_reason :: string
  m_incomingArc :: FacingArc
  m_scatter :: "ScatterLog option"

record SavedOutcome =
  sv_targetCellId :: string
  sv_finalCellId :: string
  sv_cellId :: string
  sv_incomingArc :: FacingArc
  sv_savedBy :: SavedBy
  sv_ionSave :: "IonSaveLog option"
  sv_armourSave :: "ArmourSaveLog option"
  sv_scatter :: "ScatterLog option"

record HitOutcome =
  h_targetCellId :: string
  h_finalCellId :: string
  h_cellId :: string
  h_incomingArc :: FacingArc
  h_ionSave :: "IonSaveLog option"
  h_armourSave :: ArmourSaveLog
  h_damage :: int
  h_destroyed :: bool
  h_scatter :: "ScatterLog option"

datatype AttackOutcome = MISS MissOutcome | SAVED SavedOutcome | HIT HitOutcome

definition verticalShift :: "AttackType \<Rightarrow> int \<Rightarrow> DirV \<times> int" where
  "verticalShift attackType roll =
     (if attackType = AIMED then
        (if roll = 1 then (UP_V, 1)
         else if roll = 6 then (DOWN_V, 1)
         else (HIT_V, 0))
      else if attackType = STANDARD then
        (if roll = 1 then (UP_V, 2)
         else if roll = 2 then (UP_V, 1)
         else if roll = 5 then (DOWN_V, 1)
         else if roll = 6 then (DOWN_V, 2)
         else (HIT_V, 0))
      else
        (if roll = 1 then (UP_V, 3)
         else if roll = 2 then (UP_V, 2)
         else if roll = 3 then (UP_V, 1)
         else if roll = 4 then (DOWN_V, 1)
         else if roll = 5 then (DOWN_V, 2)
         else (DOWN_V, 3)))"

definition horizontalShift :: "AttackType \<Rightarrow> int \<Rightarrow> DirH \<times> int" where
  "horizontalShift attackType roll =
     (if attackType = AIMED then
        (if roll = 1 then (LEFT_H, 1)
         else if roll = 6 then (RIGHT_H, 1)
         else (HIT_H, 0))
      else if attackType = STANDARD then
        (if roll = 1 then (LEFT_H, 2)
         else if roll = 2 then (LEFT_H, 1)
         else if roll = 5 then (RIGHT_H, 1)
         else if roll = 6 then (RIGHT_H, 2)
         else (HIT_H, 0))
      else
        (if roll = 1 then (LEFT_H, 3)
         else if roll = 2 then (LEFT_H, 2)
         else if roll = 3 then (LEFT_H, 1)
         else if roll = 4 then (RIGHT_H, 1)
         else if roll = 5 then (RIGHT_H, 2)
         else (RIGHT_H, 3)))"

definition horizSymbol :: "DirH \<Rightarrow> int \<Rightarrow> Symbol" where
  "horizSymbol dir shift =
     (if dir = HIT_H \<or> shift = 0 then Plus
      else if dir = LEFT_H then Arrows ArrowLeft (nat shift)
      else Arrows ArrowRight (nat shift))"

definition vertSymbol :: "DirV \<Rightarrow> int \<Rightarrow> Symbol" where
  "vertSymbol dir shift =
     (if dir = HIT_V \<or> shift = 0 then Plus
      else if dir = UP_V then Arrows ArrowUp (nat shift)
      else Arrows ArrowDown (nat shift))"

record AttackArgs =
  attacker :: KnightState
  defender :: KnightState
  attackerPos :: Vec2
  defenderPos :: Vec2
  defenderFacingDeg :: real
  defenderIonShieldArc :: "FacingArc option"
  defenderArmourSaveBonus :: int
  weapon :: WeaponProfile
  attackType :: AttackType
  targetCellId :: string
  targetObscured :: bool
  grid_arg :: Grid
  dice :: "DiceOverrides option"

text \<open>
  The field \<open>defenderArmourSaveBonus\<close> is not among the parameters that
  \<^verbatim>\<open>resolveAttackMutating\<close> declares; every call in \<^verbatim>\<open>execute-turn.ts\<close> passes it in the
  argument object, so it is part of what the function receives.
\<close>

record AttackResult =
  outcome :: AttackOutcome
  attackerAfter :: KnightState
  defenderAfter :: KnightState
  rngAfter :: Rng

datatype error = TypeError

text \<open>The idiom \<^verbatim>\<open>dice.x ?? rollD6()\<close>: the die is rolled only when no override is given.\<close>

definition orRoll :: "int option \<Rightarrow> Rng \<Rightarrow> int \<times> Rng" where
  "orRoll override g = (case override of Some v \<Rightarrow> (v, g) | None \<Rightarrow> rollD6 g)"

definition noOverrides :: DiceOverrides where
  "noOverrides = \<lparr>red = None, blue = None, ionSave = None, save = None,
                   damageD6 = None, damageD3 = None\<rparr>"

text \<open>Lines 193 to 226: the scatter of a ranged shot. The result is the reference to the
  final cell (if any), the scatter log and the state of the random source.\<close>

definition scatterShot ::
  "Grid \<Rightarrow> nat \<Rightarrow> WeaponProfile \<Rightarrow> AttackType \<Rightarrow> int \<Rightarrow> DiceOverrides \<Rightarrow> Rng
     \<Rightarrow> nat option \<times> ScatterLog option \<times> Rng" where
  "scatterShot dgrid si w atype horizMod d g =
     (if scatter w then
        (let (redRaw, g1) = orRoll (red d) g;
             redv = max 1 (min 6 (redRaw + horizMod));
             (bluev, g2) = orRoll (blue d) g1;
             (hdir, hshift) = horizontalShift atype redv;
             (vdir, vshift) = verticalShift atype bluev;
             slog = \<lparr>s_red = redv,
                     s_redRaw = (if redv \<noteq> redRaw then Some redRaw else None),
                     s_blue = bluev,
                     s_horizSymbol = horizSymbol hdir hshift,
                     s_vertSymbol = vertSymbol vdir vshift,
                     s_horizShift = hshift,
                     s_vertShift = vshift\<rparr>;
             dx = (if hdir = LEFT_H then - hshift else if hdir = RIGHT_H then hshift else 0);
             dy = (if vdir = UP_V then - vshift else if vdir = DOWN_V then vshift else 0);
             startCell = cells dgrid ! si;
             nx = cx startCell + dx;
             ny = cy startCell + dy;
             finalCell =
               (if nx < 0 \<or> ny < 0 \<or> nx \<ge> gwidth dgrid \<or> ny \<ge> gheight dgrid then None
                else findIndex (\<lambda>c. cx c = nx \<and> cy c = ny) (cells dgrid))
         in (finalCell, Some slog, g2))
      else (Some si, None, g))"

text \<open>Lines 296 to 306: the damage of a shot that was not saved.\<close>

definition rollDamage :: "WeaponProfile \<Rightarrow> DiceOverrides \<Rightarrow> int \<Rightarrow> Rng \<Rightarrow> int \<times> Rng" where
  "rollDamage w d damageBonus g =
     (let (dmg, g1) =
            (case damage w of
               Flat v \<Rightarrow> (v, g)
             | Dice D6 \<Rightarrow> orRoll (damageD6 d) g
             | Dice D3 \<Rightarrow>
                 (case damageD3 d of
                    Some v \<Rightarrow> (v, g)
                  | None \<Rightarrow>
                      (let (r, g') = orRoll (damageD6 d) g
                       in (\<lceil>real_of_int r / 2\<rceil>, g'))))
      in (max 0 (dmg + damageBonus), g1))"

definition resolveAttackMutating :: "AttackArgs \<Rightarrow> Rng \<Rightarrow> error + AttackResult" where
  "resolveAttackMutating args g =
     (let d = (case dice args of Some d' \<Rightarrow> d' | None \<Rightarrow> noOverrides);
          dcells = cells (grid (defender args));
          arc = incomingArc (defenderPos args) (defenderFacingDeg args) (attackerPos args);
          shieldArc = (case defenderIonShieldArc args of Some a \<Rightarrow> a | None \<Rightarrow> FRONT);
          horizMod = (if arc = LEFT then - 1 else if arc = RIGHT then 1 else 0);
          damageBonus = (if arc = LEFT \<or> arc = RIGHT \<or> arc = REAR then 1 else 0);
          apBonus = (if arc = REAR then - 1 else 0);
          unchanged = (\<lambda>out g'. Inr \<lparr>outcome = out, attackerAfter = attacker args,
                                      defenderAfter = defender args, rngAfter = g'\<rparr>)
      in case findIndex (\<lambda>c. cid c = targetCellId args) dcells of
           None \<Rightarrow>
             unchanged (MISS \<lparr>m_targetCellId = targetCellId args, m_finalCellId = None,
                              m_reason = ''Target cell not found on defender grid.'',
                              m_incomingArc = arc, m_scatter = None\<rparr>) g
         | Some si \<Rightarrow>
             (let (finalCell, slog, g1) =
                    scatterShot (grid (defender args)) si (weapon args) (attackType args)
                      horizMod d g
              in case finalCell of
                   None \<Rightarrow>
                     unchanged (MISS \<lparr>m_targetCellId = targetCellId args, m_finalCellId = None,
                                      m_reason = ''Scatter moved shot off-grid.'',
                                      m_incomingArc = arc, m_scatter = slog\<rparr>) g1
                 | Some fi \<Rightarrow>
                     (case findIndex (\<lambda>c. cid c = cid (dcells ! fi)) dcells of
                        None \<Rightarrow> Inl TypeError
                      | Some li \<Rightarrow>
                          (let liveCell = dcells ! li in
                           if armorPoints liveCell \<le> 0 then
                             unchanged (MISS \<lparr>m_targetCellId = targetCellId args,
                                              m_finalCellId = Some (cid liveCell),
                                              m_reason = ''Final location has no Armour Points remaining.'',
                                              m_incomingArc = arc, m_scatter = slog\<rparr>) g1
                           else
                             (let ionApplies = (scatter (weapon args) \<and> arc = shieldArc);
                                  (ionDie, g2) =
                                    (if ionApplies then orRoll (ionSave d) g1 else (0, g1));
                                  ionLog =
                                    (if ionApplies
                                     then Some \<lparr>i_attempted = True, i_die = ionDie, i_needed = 4,
                                                i_success = (ionDie \<ge> 4)\<rparr>
                                     else None)
                              in if ionApplies \<and> ionDie \<ge> 4 then
                                   unchanged (SAVED \<lparr>sv_targetCellId = targetCellId args,
                                                     sv_finalCellId = cid liveCell,
                                                     sv_cellId = cid liveCell,
                                                     sv_incomingArc = arc, sv_savedBy = ION,
                                                     sv_ionSave = ionLog, sv_armourSave = None,
                                                     sv_scatter = slog\<rparr>) g2
                                 else
                                   (let (saveDie, g3) = orRoll (save d) g2;
                                        coverBonus = (if targetObscured args then 1 else 0);
                                        effectiveAp = ap (weapon args) + apBonus;
                                        saveRoll = saveDie + effectiveAp + coverBonus;
                                        saveNeeded = 5;
                                        armourLog = \<lparr>a_roll = saveRoll, a_die = saveDie,
                                                      a_needed = saveNeeded,
                                                      a_mods_ap = effectiveAp,
                                                      a_mods_cover = (coverBonus = 1)\<rparr>
                                    in if saveRoll \<ge> saveNeeded then
                                         unchanged (SAVED \<lparr>sv_targetCellId = targetCellId args,
                                                           sv_finalCellId = cid liveCell,
                                                           sv_cellId = cid liveCell,
                                                           sv_incomingArc = arc,
                                                           sv_savedBy = ARMOUR,
                                                           sv_ionSave = ionLog,
                                                           sv_armourSave = Some armourLog,
                                                           sv_scatter = slog\<rparr>) g3
                                       else
                                         (let (dmg, g4) = rollDamage (weapon args) d damageBonus g3;
                                              defender' = applyDamageToCell (defender args) li dmg;
                                              destroyed = isKnightDestroyed defender'
                                          in Inr \<lparr>outcome =
                                                    HIT \<lparr>h_targetCellId = targetCellId args,
                                                         h_finalCellId = cid liveCell,
                                                         h_cellId = cid liveCell,
                                                         h_incomingArc = arc,
                                                         h_ionSave = ionLog,
                                                         h_armourSave = armourLog,
                                                         h_damage = dmg,
                                                         h_destroyed = destroyed,
                                                         h_scatter = slog\<rparr>,
                                                  attackerAfter = attacker args,
                                                  defenderAfter = defender',
                                                  rngAfter = g4\<rparr>)))))))"


section \<open>Terrain and line of sight\<close>

text \<open>The file \<^verbatim>\<open>src/src/engine/terrain.ts\<close>. The fields of a \<^verbatim>\<open>Rect\<close> are \<open>rx\<close>, \<open>ry\<close>,
  \<open>rw\<close> and \<open>rh\<close>; those of a \<^verbatim>\<open>TerrainPiece\<close> are \<open>tid\<close>, \<open>ttype\<close> and \<open>rects\<close>.\<close>

datatype TerrainType = HARD | SOFT

record Rect =
  rx :: real
  ry :: real
  rw :: real
  rh :: real

record TerrainPiece =
  tid :: string
  ttype :: TerrainType
  rects :: "Rect list"

text \<open>
  The closure \<^verbatim>\<open>clip\<close> of \<^verbatim>\<open>segmentEnterT\<close> updates the variables \<^verbatim>\<open>t0\<close> and \<^verbatim>\<open>t1\<close> of the
  enclosing function. Here it takes their values and returns the new ones, or \<open>None\<close>
  where the closure returns \<^verbatim>\<open>false\<close>.
\<close>

definition clip :: "real \<Rightarrow> real \<Rightarrow> real \<times> real \<Rightarrow> (real \<times> real) option" where
  "clip p q tt =
     (let (t0, t1) = tt in
      if \<bar>p\<bar> < 1 / 10 ^ 9 then (if q < 0 then None else Some (t0, t1))
      else
        (let t = q / p in
         if p < 0 then
           (if t > t1 then None else Some (if t > t0 then t else t0, t1))
         else
           (if t < t0 then None else Some (t0, if t < t1 then t else t1))))"

definition segmentEnterT :: "Vec2 \<Rightarrow> Vec2 \<Rightarrow> Rect \<Rightarrow> real option" where
  "segmentEnterT a b r =
     (let dx = vx b - vx a;
          dy = vy b - vy a;
          xMin = rx r;
          xMax = rx r + rw r;
          yMin = ry r;
          yMax = ry r + rh r
      in case clip (- dx) (vx a - xMin) (0, 1) of
           None \<Rightarrow> None
         | Some s1 \<Rightarrow>
        (case clip dx (xMax - vx a) s1 of
           None \<Rightarrow> None
         | Some s2 \<Rightarrow>
        (case clip (- dy) (vy a - yMin) s2 of
           None \<Rightarrow> None
         | Some s3 \<Rightarrow>
        (case clip dy (yMax - vy a) s3 of
           None \<Rightarrow> None
         | Some (t0, t1) \<Rightarrow> if t0 \<ge> 0 \<and> t0 \<le> 1 then Some t0 else None))))"

definition segmentIntersectsRects :: "Vec2 \<Rightarrow> Vec2 \<Rightarrow> Rect list \<Rightarrow> bool" where
  "segmentIntersectsRects a b rs = list_ex (\<lambda>r. segmentEnterT a b r \<noteq> None) rs"

record LosEffects =
  blocked :: bool
  obscured :: bool
  crossesAnyCover :: bool

text \<open>The loop of \<^verbatim>\<open>computeLosEffects\<close>, with the variables \<^verbatim>\<open>obscured\<close> and
  \<^verbatim>\<open>crossesAnyCover\<close> as arguments.\<close>

fun losLoop :: "Vec2 \<Rightarrow> Vec2 \<Rightarrow> TerrainPiece list \<Rightarrow> bool \<Rightarrow> bool \<Rightarrow> LosEffects" where
  "losLoop a b [] obs crosses = \<lparr>blocked = False, obscured = obs, crossesAnyCover = crosses\<rparr>"
| "losLoop a b (t # ts) obs crosses =
     (if \<not> segmentIntersectsRects a b (rects t) then losLoop a b ts obs crosses
      else if ttype t = HARD then \<lparr>blocked = True, obscured = False, crossesAnyCover = True\<rparr>
      else losLoop a b ts (if ttype t = SOFT then True else obs) True)"

definition computeLosEffects :: "Vec2 \<Rightarrow> Vec2 \<Rightarrow> TerrainPiece list \<Rightarrow> LosEffects" where
  "computeLosEffects a b terrain = losLoop a b terrain False False"

section \<open>Grid pathfinding\<close>

text \<open>
  The function \<^verbatim>\<open>findPathManhattan\<close> of \<^verbatim>\<open>src/src/engine/execute-turn.ts\<close>. A node of the one-inch lattice. The source keys its map \<^verbatim>\<open>prev\<close> and its set \<^verbatim>\<open>seen\<close> by
  the string \<^verbatim>\<open>x,y\<close> of a node and parses the string back; the pair of whole numbers
  stands for that string. The nodes of a returned path are pairs of whole numbers too.
\<close>

type_synonym Node = "int \<times> int"

definition isBlocked :: "int \<Rightarrow> TerrainPiece list \<Rightarrow> Node \<Rightarrow> bool" where
  "isBlocked boardSize terrain n =
     (let x = fst n; y = snd n in
      if x < 0 \<or> y < 0 \<or> x > boardSize \<or> y > boardSize then True
      else list_ex (\<lambda>t. list_ex (\<lambda>r.
             real_of_int x \<ge> rx r \<and> real_of_int x < rx r + rw r \<and>
             real_of_int y \<ge> ry r \<and> real_of_int y < ry r + rh r) (rects t)) terrain)"

definition dirs :: "Node list" where
  "dirs = [(1, 0), (- 1, 0), (0, 1), (0, - 1)]"

text \<open>The reconstruction loop: it follows \<^verbatim>\<open>prev\<close> from the goal and pushes each node met,
  until a node has no entry or the start is reached.\<close>

partial_function (option) reconstructLoop ::
  "(Node \<rightharpoonup> Node) \<Rightarrow> Node \<Rightarrow> Node \<Rightarrow> Node list \<Rightarrow> Node list option" where
  "reconstructLoop prev s back out =
     (case prev back of
        None \<Rightarrow> Some out
      | Some p \<Rightarrow>
          (if p = s then Some (out @ [p])
           else reconstructLoop prev s p (out @ [p])))"

definition reconstruct :: "(Node \<rightharpoonup> Node) \<Rightarrow> Node \<Rightarrow> Node \<Rightarrow> Node list option" where
  "reconstruct prev s gl = map_option rev (reconstructLoop prev s gl [gl])"

text \<open>One pass of the inner loop over the four directions from the node \<open>cur\<close>: either the
  goal is met and the path is returned, or the loop ends with the queue, the map and the
  set extended.\<close>

datatype Expanded =
  Found "Node list option"
| Continue "Node list" "Node \<rightharpoonup> Node" "Node list"

fun expand ::
  "int \<Rightarrow> TerrainPiece list \<Rightarrow> Node \<Rightarrow> Node \<Rightarrow> Node \<Rightarrow> Node list
     \<Rightarrow> Node list \<Rightarrow> (Node \<rightharpoonup> Node) \<Rightarrow> Node list \<Rightarrow> Expanded" where
  "expand B terrain s gl cur [] q prev seen = Continue q prev seen"
| "expand B terrain s gl cur (d # ds) q prev seen =
     (let n = (fst cur + fst d, snd cur + snd d) in
      if n \<in> set seen then expand B terrain s gl cur ds q prev seen
      else if isBlocked B terrain n then expand B terrain s gl cur ds q prev seen
      else
        (let prev' = prev(n \<mapsto> cur) in
         if n = gl then Found (reconstruct prev' s gl)
         else expand B terrain s gl cur ds (q @ [n]) prev' (seen @ [n])))"

text \<open>The outer loop. The result \<open>None\<close> stands for a run that does not return,
  \<open>Some None\<close> for \<^verbatim>\<open>null\<close> and \<open>Some (Some p)\<close> for the path \<open>p\<close>.\<close>

function bfs ::
  "int \<Rightarrow> TerrainPiece list \<Rightarrow> Node \<Rightarrow> Node
     \<Rightarrow> Node list \<Rightarrow> (Node \<rightharpoonup> Node) \<Rightarrow> Node list \<Rightarrow> Node list option option" where
  "bfs B terrain s gl [] prev seen = Some None"
| "bfs B terrain s gl (cur # rest) prev seen =
     (case expand B terrain s gl cur dirs rest prev seen of
        Found p \<Rightarrow> map_option Some p
      | Continue q' prev' seen' \<Rightarrow> bfs B terrain s gl q' prev' seen')"
  by pat_completeness auto


text \<open>
  The outer loop ends: a pass of the inner loop appends to the queue only nodes that are
  unblocked and were not seen before, and adds the same nodes to the set \<^verbatim>\<open>seen\<close>; the
  unblocked nodes lie on the board and are finitely many.
\<close>

termination bfs
proof (relation "measure (\<lambda>(B, terrain, s, gl, q, prev, seen).
          2 * card ({n. \<not> isBlocked B terrain n} - set seen) + length q)")
  show "wf (measure (\<lambda>(B, terrain, s, gl, q, prev, seen).
          2 * card ({n. \<not> isBlocked B terrain n} - set seen) + length q))"
    by simp
next
  fix B :: int and terrain s gl cur rest and prev :: "Node \<rightharpoonup> Node" and seen q' prev' seen'
  assume e: "expand B terrain s gl cur dirs rest prev seen = Continue q' prev' seen'"
  let ?F = "{n. \<not> isBlocked B terrain n}"
  have grow: "\<exists>new. q' = q @ new \<and> seen' = sn @ new \<and> distinct new \<and> set new \<inter> set sn = {}
       \<and> set new \<subseteq> ?F"
    if "expand B terrain s gl cur ds q pv sn = Continue q' prev' seen'" for ds q pv sn
    using that
  proof (induction ds arbitrary: q pv sn)
    case Nil
    then show ?case by simp
  next
    case (Cons d ds)
    let ?n = "(fst cur + fst d, snd cur + snd d)"
    show ?case
    proof (cases "?n \<in> set sn \<or> isBlocked B terrain ?n")
      case True
      with Cons.prems have "expand B terrain s gl cur ds q pv sn = Continue q' prev' seen'"
        by (auto simp: Let_def split: if_splits)
      from Cons.IH[OF this] show ?thesis .
    next
      case False
      with Cons.prems have "?n \<noteq> gl"
        by (auto simp: Let_def split: if_splits)
      with False Cons.prems
      have "expand B terrain s gl cur ds (q @ [?n]) (pv(?n \<mapsto> cur)) (sn @ [?n])
              = Continue q' prev' seen'"
        by (simp add: Let_def)
      from Cons.IH[OF this] obtain new where new:
        "q' = (q @ [?n]) @ new" "seen' = (sn @ [?n]) @ new" "distinct new"
        "set new \<inter> set (sn @ [?n]) = {}" "set new \<subseteq> ?F"
        by blast
      with False show ?thesis
        by (intro exI[of _ "?n # new"]) auto
    qed
  qed
  from grow[OF e] obtain new where new: "q' = rest @ new" "seen' = seen @ new" "distinct new"
    "set new \<inter> set seen = {}" "set new \<subseteq> ?F"
    by blast
  have "?F \<subseteq> {0..B} \<times> {0..B}"
    by (auto simp: isBlocked_def Let_def split: if_splits)
  then have "finite ?F"
    by (rule finite_subset) simp
  then have fin: "finite (?F - set seen)"
    by simp
  have sub: "set new \<subseteq> ?F - set seen"
    using new by auto
  have "?F - set seen' = (?F - set seen) - set new"
    using new by auto
  then have "card (?F - set seen') = card (?F - set seen) - card (set new)"
    using fin sub by (simp add: card_Diff_subset finite_subset)
  moreover have "card (set new) \<le> card (?F - set seen)"
    using fin sub by (simp add: card_mono)
  moreover have "card (set new) = length new"
    using new by (simp add: distinct_card)
  ultimately show "((B, terrain, s, gl, q', prev', seen'), (B, terrain, s, gl, cur # rest, prev, seen))
      \<in> measure (\<lambda>(B, terrain, s, gl, q, prev, seen).
          2 * card ({n. \<not> isBlocked B terrain n} - set seen) + length q)"
    using new by simp
qed

text \<open>\<^verbatim>\<open>Math.round\<close>: the nearest whole number, a half rounded up.\<close>

definition round_js :: "real \<Rightarrow> int" where
  "round_js x = \<lfloor>x + 1 / 2\<rfloor>"

definition findPathManhattan ::
  "Vec2 \<Rightarrow> Vec2 \<Rightarrow> TerrainPiece list \<Rightarrow> int \<Rightarrow> Node list option option" where
  "findPathManhattan start goal terrain boardSize =
     (let s = (round_js (vx start), round_js (vy start));
          gl = (round_js (vx goal), round_js (vy goal))
      in if isBlocked boardSize terrain s then Some None
         else if isBlocked boardSize terrain gl then Some None
         else if s = gl then Some (Some [s])
         else bfs boardSize terrain s gl [s] Map.empty [s])"


section \<open>Turn orchestration\<close>

text \<open>Two parts of \<^verbatim>\<open>executeTurnMutating\<close> in \<^verbatim>\<open>src/src/engine/execute-turn.ts\<close>: the
  step that rotates the ion shields and the call that resolves a ranged attack.\<close>

datatype PlayerId = P1 | P2

definition enemyOf :: "PlayerId \<Rightarrow> PlayerId" where
  "enemyOf p = (if p = P1 then P2 else P1)"

text \<open>A \<^verbatim>\<open>Record<PlayerId, T>\<close> is a function from the two player ids.\<close>

text \<open>The fields of \<^verbatim>\<open>GameState\<close> carry the prefix \<open>g_\<close>.\<close>

record GameState =
  g_grid :: Grid
  g_knights :: "PlayerId \<Rightarrow> KnightState"
  g_turnNumber :: int
  g_positions :: "PlayerId \<Rightarrow> Vec2"
  g_facings :: "PlayerId \<Rightarrow> real"
  g_terrain :: "TerrainPiece list"
  g_chassisId :: "PlayerId \<Rightarrow> string"

text \<open>
  Lines 312 to 321 of \<^verbatim>\<open>executeTurnMutating\<close>, the step \<^verbatim>\<open>ROTATE_ION_SHIELDS\<close>: the loop over
  the active players, with the variables \<^verbatim>\<open>rotateArmourBonus\<close> and \<^verbatim>\<open>rotated\<close> as
  arguments.
\<close>

fun rotateIonShieldsStep ::
  "(PlayerId \<Rightarrow> KnightState) \<Rightarrow> PlayerId list \<Rightarrow> (PlayerId \<Rightarrow> int) \<Rightarrow> PlayerId list
     \<Rightarrow> (PlayerId \<Rightarrow> int) \<times> PlayerId list" where
  "rotateIonShieldsStep snapshotKnights [] rotateArmourBonus rotated =
     (rotateArmourBonus, rotated)"
| "rotateIonShieldsStep snapshotKnights (p # ps) rotateArmourBonus rotated =
     (if \<not> canRotateIonShields (snapshotKnights p)
      then rotateIonShieldsStep snapshotKnights ps rotateArmourBonus rotated
      else rotateIonShieldsStep snapshotKnights ps (rotateArmourBonus(p := 1)) (rotated @ [p]))"

text \<open>
  Lines 490 to 503: the argument object that the apply phase of a ranged attack step
  passes to \<^verbatim>\<open>resolveAttackMutating\<close> for the attacker \<open>p\<close>. The weapon profile, the
  effective attack type, the target cell chosen for the mount, the \<^verbatim>\<open>obscured\<close> flag of
  the line of sight and the dice of the attack input are taken as given. The value of
  \<^verbatim>\<open>rotateArmourBonus[enemy] || 0\<close> is \<^verbatim>\<open>rotateArmourBonus[enemy]\<close>. No call passes
  \<^verbatim>\<open>defenderIonShieldArc\<close>.
\<close>

definition rangedAttackArgs ::
  "GameState \<Rightarrow> (PlayerId \<Rightarrow> int) \<Rightarrow> PlayerId \<Rightarrow> WeaponProfile \<Rightarrow> AttackType \<Rightarrow> string
     \<Rightarrow> bool \<Rightarrow> DiceOverrides option \<Rightarrow> AttackArgs" where
  "rangedAttackArgs game rotateArmourBonus p profile effectiveAttackType target losObscured atkDice =
     (let enemy = enemyOf p in
      \<lparr>attacker = g_knights game p,
       defender = g_knights game enemy,
       attackerPos = g_positions game p,
       defenderPos = g_positions game enemy,
       defenderFacingDeg = g_facings game enemy,
       defenderIonShieldArc = None,
       defenderArmourSaveBonus = rotateArmourBonus enemy,
       weapon = profile,
       attackType = effectiveAttackType,
       targetCellId = target,
       targetObscured = losObscured,
       grid_arg = g_grid game,
       dice = atkDice\<rparr>)"

section \<open>Predicates used to state the properties\<close>

text \<open>A cell's armour points lie between zero and its maximum.\<close>

definition armorInRange :: "GridCell \<Rightarrow> bool" where
  "armorInRange c \<longleftrightarrow> 0 \<le> armorPoints c \<and> armorPoints c \<le> maxArmorPoints c"

definition gridInRange :: "KnightState \<Rightarrow> bool" where
  "gridInRange k \<longleftrightarrow> list_all armorInRange (cells (grid k))"

text \<open>From \<open>k\<close> to \<open>k'\<close> the grid keeps its cells, their ids and their maximum armour, and
  no cell that was critically damaged has ceased to be.\<close>

definition critKept :: "KnightState \<Rightarrow> KnightState \<Rightarrow> bool" where
  "critKept k k' \<longleftrightarrow>
     map cid (cells (grid k')) = map cid (cells (grid k)) \<and>
     map maxArmorPoints (cells (grid k')) = map maxArmorPoints (cells (grid k)) \<and>
     list_all2 (\<lambda>c c'. criticallyDamaged c \<longrightarrow> criticallyDamaged c')
       (cells (grid k)) (cells (grid k'))"

text \<open>The cells of one arm, as \<^verbatim>\<open>updateArmDisablesIfNeeded\<close> selects them: group 3, and
  left or right of the midline of the grid.\<close>

definition isArmCell :: "WeaponMount \<Rightarrow> KnightState \<Rightarrow> GridCell \<Rightarrow> bool" where
  "isArmCell m k c \<longleftrightarrow>
     cgroup c = 3 \<and>
     (if m = ARM_LEFT then real_of_int (cx c) < (real_of_int (gwidth (grid k)) - 1) / 2
      else m = ARM_RIGHT \<and> real_of_int (cx c) > (real_of_int (gwidth (grid k)) - 1) / 2)"

text \<open>The condition \<^verbatim>\<open>leftBothCrit\<close>, or \<^verbatim>\<open>rightBothCrit\<close>, of
  \<^verbatim>\<open>updateArmDisablesIfNeeded\<close>.\<close>

definition armBothCrit :: "WeaponMount \<Rightarrow> KnightState \<Rightarrow> bool" where
  "armBothCrit m k \<longleftrightarrow>
     length (filter (isArmCell m k) (cells (grid k))) \<ge> 2 \<and>
     list_all criticallyDamaged (filter (isArmCell m k) (cells (grid k)))"

text \<open>The scatter log of a result, whatever the outcome.\<close>

definition scatterOf :: "error + AttackResult \<Rightarrow> ScatterLog option" where
  "scatterOf res =
     (case res of
        Inl e \<Rightarrow> None
      | Inr r \<Rightarrow>
          (case outcome r of
             MISS m \<Rightarrow> m_scatter m
           | SAVED sv \<Rightarrow> sv_scatter sv
           | HIT h \<Rightarrow> h_scatter h))"

text \<open>Two nodes are neighbours in the 4-connected lattice.\<close>

definition adjacent :: "Node \<Rightarrow> Node \<Rightarrow> bool" where
  "adjacent a b \<longleftrightarrow> \<bar>fst a - fst b\<bar> + \<bar>snd a - snd b\<bar> = 1"

text \<open>A route from \<open>s\<close> to \<open>gl\<close>: a sequence of unblocked nodes that starts at \<open>s\<close>, ends at
  \<open>gl\<close> and moves from each node to a neighbour.\<close>

definition isRoute :: "int \<Rightarrow> TerrainPiece list \<Rightarrow> Node \<Rightarrow> Node \<Rightarrow> Node list \<Rightarrow> bool" where
  "isRoute B terrain s gl p \<longleftrightarrow>
     p \<noteq> [] \<and> hd p = s \<and> last p = gl \<and> list_all (\<lambda>n. \<not> isBlocked B terrain n) p \<and>
     successively adjacent p"

text \<open>The nodes met when \<^verbatim>\<open>prev\<close> is followed from \<open>n\<close> back to the start \<open>s\<close>.\<close>

inductive trail ::
  "int \<Rightarrow> TerrainPiece list \<Rightarrow> (Node \<rightharpoonup> Node) \<Rightarrow> Node \<Rightarrow> Node \<Rightarrow> Node list \<Rightarrow> bool"
  for B terrain prev s where
  trail_start: "prev n = Some s \<Longrightarrow> \<not> isBlocked B terrain n \<Longrightarrow> adjacent s n
      \<Longrightarrow> trail B terrain prev s n [s]"
| trail_step: "prev n = Some p \<Longrightarrow> p \<noteq> s \<Longrightarrow> \<not> isBlocked B terrain n \<Longrightarrow> adjacent p n
      \<Longrightarrow> trail B terrain prev s p xs \<Longrightarrow> trail B terrain prev s n (p # xs)"

text \<open>The invariant of the search loop.\<close>

definition bfsInv ::
  "int \<Rightarrow> TerrainPiece list \<Rightarrow> Node \<Rightarrow> Node list \<Rightarrow> (Node \<rightharpoonup> Node) \<Rightarrow> Node list \<Rightarrow> bool" where
  "bfsInv B terrain s q prev seen \<longleftrightarrow>
     \<not> isBlocked B terrain s \<and> s \<in> set seen \<and> dom prev \<subseteq> set seen \<and> prev s = None \<and>
     (\<forall>n\<in>dom prev. \<exists>xs. trail B terrain prev s n xs) \<and>
     (\<forall>m\<in>set q. m = s \<or> m \<in> dom prev)"

section \<open>Example data\<close>

text \<open>
  A small Knight: a grid of four columns and two rows, so that the midline is at 1.5. The
  cells A1 and A2 are the left arm, B3 and B4 the right arm, A3 is the shield mechanism
  (group 4) and A4 a leg (group 8).
\<close>

definition exampleCell :: "string \<Rightarrow> int \<Rightarrow> int \<Rightarrow> nat \<Rightarrow> int \<Rightarrow> GridCell" where
  "exampleCell i x y g a =
     \<lparr>cid = i, cx = x, cy = y, cgroup = g, armorPoints = a, maxArmorPoints = a,
      criticallyDamaged = False\<rparr>"

definition exampleKnight :: KnightState where
  "exampleKnight =
     \<lparr>kname = ''Knight'',
      grid = \<lparr>gwidth = 4, gheight = 2,
              cells = [exampleCell ''A1'' 0 0 3 1, exampleCell ''A2'' 1 0 3 1,
                       exampleCell ''A3'' 2 0 4 2, exampleCell ''A4'' 3 0 8 1,
                       exampleCell ''B1'' 0 1 1 2, exampleCell ''B2'' 1 1 5 3,
                       exampleCell ''B3'' 2 1 3 1, exampleCell ''B4'' 3 1 3 1]\<rparr>,
      maxActionPoints = 4, movementPenalty = 0, canRotateIonShields = True,
      weapons = [\<lparr>wname = ''Cannon'', mount = ARM_LEFT, disabled = False\<rparr>,
                 \<lparr>wname = ''Chainsword'', mount = ARM_RIGHT, disabled = False\<rparr>,
                 \<lparr>wname = ''Missiles'', mount = CARAPACE, disabled = False\<rparr>,
                 \<lparr>wname = ''Stubber'', mount = TORSO, disabled = False\<rparr>]\<rparr>"

text \<open>The same Knight with its first \<open>n\<close> cells critically damaged.\<close>

definition exampleWrecked :: "nat \<Rightarrow> KnightState" where
  "exampleWrecked n =
     setCells exampleKnight
       (map (\<lambda>c. c\<lparr>armorPoints := 0, criticallyDamaged := True\<rparr>)
            (take n (cells (grid exampleKnight)))
        @ drop n (cells (grid exampleKnight)))"

definition exampleCannon :: WeaponProfile where
  "exampleCannon =
     \<lparr>pname = ''Cannon'', rangeInches = 36, ap = 0, damage = Flat 2, scatter = True,
      abilities = None\<rparr>"

text \<open>A random source whose every number is one half, so that every die rolled is a 4.\<close>

definition exampleRng :: Rng where
  "exampleRng = \<lparr>randoms = (\<lambda>n. 1 / 2), used = 0\<rparr>"

definition exampleDice :: "int \<Rightarrow> int \<Rightarrow> int \<Rightarrow> int \<Rightarrow> DiceOverrides" where
  "exampleDice r b i s =
     \<lparr>red = Some r, blue = Some b, ionSave = Some i, save = Some s,
      damageD6 = None, damageD3 = None\<rparr>"

text \<open>The attacker stands ten inches to the east of a defender that faces east: the attack
  comes from the front.\<close>

definition exampleArgs :: "KnightState \<Rightarrow> AttackType \<Rightarrow> string \<Rightarrow> DiceOverrides \<Rightarrow> AttackArgs" where
  "exampleArgs dfn atype target d =
     \<lparr>attacker = exampleKnight,
      defender = dfn,
      attackerPos = \<lparr>vx = 10, vy = 0\<rparr>,
      defenderPos = \<lparr>vx = 0, vy = 0\<rparr>,
      defenderFacingDeg = 0,
      defenderIonShieldArc = None,
      defenderArmourSaveBonus = 0,
      weapon = exampleCannon,
      attackType = atype,
      targetCellId = target,
      targetObscured = False,
      grid_arg = grid dfn,
      dice = Some d\<rparr>"

definition exampleGame :: GameState where
  "exampleGame =
     \<lparr>g_grid = grid exampleKnight,
      g_knights = (\<lambda>p. exampleKnight),
      g_turnNumber = 1,
      g_positions = (\<lambda>p. if p = P1 then \<lparr>vx = 10, vy = 0\<rparr> else \<lparr>vx = 0, vy = 0\<rparr>),
      g_facings = (\<lambda>p. if p = P1 then 180 else 0),
      g_terrain = [],
      g_chassisId = (\<lambda>p. ''questoris'')\<rparr>"

text \<open>A wall of hard cover between the columns 0 and 2 of a small board, and a segment
  that crosses a piece of soft cover and then a piece of hard cover.\<close>

definition exampleWall :: "TerrainPiece list" where
  "exampleWall =
     [\<lparr>tid = ''H1'', ttype = HARD, rects = [\<lparr>rx = 1, ry = 0, rw = 1, rh = 2\<rparr>]\<rparr>]"

definition exampleCover :: "TerrainPiece list" where
  "exampleCover =
     [\<lparr>tid = ''S1'', ttype = SOFT, rects = [\<lparr>rx = 1, ry = - 1, rw = 1, rh = 2\<rparr>]\<rparr>,
      \<lparr>tid = ''H1'', ttype = HARD, rects = [\<lparr>rx = 3, ry = - 1, rw = 1, rh = 2\<rparr>]\<rparr>,
      \<lparr>tid = ''S2'', ttype = SOFT, rects = [\<lparr>rx = 1, ry = 5, rw = 1, rh = 2\<rparr>]\<rparr>]"

text \<open>A column of hard cover that cuts a board of size 2 in two.\<close>

definition exampleColumn :: "TerrainPiece list" where
  "exampleColumn =
     [\<lparr>tid = ''H2'', ttype = HARD, rects = [\<lparr>rx = 1, ry = 0, rw = 1, rh = 3\<rparr>]\<rparr>]"

section \<open>Properties of the geometry\<close>

lemma js_rem_nonneg:
  assumes "0 < n" and "0 \<le> a"
  shows "0 \<le> js_rem a n \<and> js_rem a n < n"
proof -
  have q: "0 \<le> a / n" using assms by simp
  have "real_of_int \<lfloor>a / n\<rfloor> * n \<le> a"
    using assms(1) by (rule floor_divide_lower)
  moreover have "a < (real_of_int \<lfloor>a / n\<rfloor> + 1) * n"
    using assms(1) by (rule floor_divide_upper)
  ultimately show ?thesis
    using q by (simp add: js_rem_def trunc_def algebra_simps)
qed

lemma js_rem_neg:
  assumes "0 < n" and "a < 0"
  shows "- n < js_rem a n \<and> js_rem a n \<le> 0"
proof -
  have q: "\<not> 0 \<le> a / n" using assms by (simp add: divide_less_0_iff not_le)
  have "real_of_int \<lfloor>(- a) / n\<rfloor> * n \<le> - a"
    using assms(1) by (rule floor_divide_lower)
  moreover have "- a < (real_of_int \<lfloor>(- a) / n\<rfloor> + 1) * n"
    using assms(1) by (rule floor_divide_upper)
  ultimately show ?thesis
    using q by (simp add: js_rem_def trunc_def algebra_simps)
qed

lemma js_rem_bounds: "0 < n \<Longrightarrow> - n < js_rem a n \<and> js_rem a n < n"
  using js_rem_nonneg[of n a] js_rem_neg[of n a] by (cases "0 \<le> a") auto

lemma js_rem_cong: "\<exists>k::int. js_rem a n = a - n * real_of_int k"
  by (auto simp: js_rem_def)

lemma normDeg_range: "0 \<le> normDeg d \<and> normDeg d < 360"
proof -
  have "- 360 < js_rem d 360" using js_rem_bounds[of 360 d] by simp
  then have "0 \<le> js_rem d 360 + 360" by simp
  from js_rem_nonneg[OF _ this, of 360] show ?thesis by (simp add: normDeg_def)
qed

lemma normalizeDeltaDeg_range: "- 180 < normalizeDeltaDeg d \<and> normalizeDeltaDeg d \<le> 180"
proof -
  have "- 360 < js_rem (d + 180) 360" using js_rem_bounds[of 360 "d + 180"] by simp
  then have "0 \<le> js_rem (d + 180) 360 + 360" by simp
  from js_rem_nonneg[OF _ this, of 360]
  have "0 \<le> js_rem (js_rem (d + 180) 360 + 360) 360
      \<and> js_rem (js_rem (d + 180) 360 + 360) 360 < 360"
    by simp
  then show ?thesis by (auto simp: normalizeDeltaDeg_def Let_def)
qed

lemma normalizeDeltaDeg_cong: "\<exists>k::int. normalizeDeltaDeg d = d + 360 * real_of_int k"
proof -
  obtain k1 :: int where k1: "js_rem (d + 180) 360 = d + 180 - 360 * real_of_int k1"
    using js_rem_cong by blast
  obtain k2 :: int where k2: "js_rem (js_rem (d + 180) 360 + 360) 360
      = js_rem (d + 180) 360 + 360 - 360 * real_of_int k2"
    using js_rem_cong by blast
  let ?e = "js_rem (js_rem (d + 180) 360 + 360) 360 - 180"
  have e: "?e = d + 360 * real_of_int (1 - k1 - k2)"
    using k1 k2 by simp
  show ?thesis
  proof (cases "?e = - 180")
    case True
    then have "normalizeDeltaDeg d = 180" by (simp add: normalizeDeltaDeg_def)
    also have "\<dots> = ?e + 360" using True by simp
    also have "\<dots> = d + 360 * real_of_int (2 - k1 - k2)" using e by simp
    finally show ?thesis by blast
  next
    case False
    then have "normalizeDeltaDeg d = ?e" by (simp add: normalizeDeltaDeg_def Let_def)
    with e show ?thesis by metis
  qed
qed

lemmas arc_eval = incomingArc_def bearingDeg_def atan2_def normalizeDeltaDeg_def normDeg_def
  js_rem_def trunc_def Let_def

text \<open>
  Claim C6. For every position, facing and target point, \<open>incomingArc\<close> is computed from the
  signed difference \<open>delta\<close> between the bearing to the point and the facing, normalised
  into \<open>(-180, 180]\<close> (and equal to that difference up to a multiple of 360):
  \<open>|delta| \<le> 45\<close> gives FRONT, \<open>|delta| \<ge> 135\<close> gives REAR, otherwise RIGHT for a positive
  and LEFT for a negative \<open>delta\<close>. The boundary angles, 45 and 135 on either side, are FRONT
  and REAR, never LEFT or RIGHT.
\<close>

theorem incomingArc_classification:
  fixes defenderPos attackerPos :: Vec2 and facing :: real
  defines "delta \<equiv> normalizeDeltaDeg (bearingDeg defenderPos attackerPos - normDeg facing)"
  shows "- 180 < delta \<and> delta \<le> 180
    \<and> (\<exists>k::int. delta = bearingDeg defenderPos attackerPos - normDeg facing + 360 * real_of_int k)
    \<and> (\<bar>delta\<bar> \<le> 45 \<longrightarrow> incomingArc defenderPos facing attackerPos = FRONT)
    \<and> (\<bar>delta\<bar> \<ge> 135 \<longrightarrow> incomingArc defenderPos facing attackerPos = REAR)
    \<and> (45 < delta \<and> delta < 135 \<longrightarrow> incomingArc defenderPos facing attackerPos = RIGHT)
    \<and> (- 135 < delta \<and> delta < - 45 \<longrightarrow> incomingArc defenderPos facing attackerPos = LEFT)
    \<and> (incomingArc defenderPos facing attackerPos = RIGHT \<longrightarrow> \<bar>delta\<bar> \<noteq> 45 \<and> \<bar>delta\<bar> \<noteq> 135)
    \<and> (incomingArc defenderPos facing attackerPos = LEFT \<longrightarrow> \<bar>delta\<bar> \<noteq> 45 \<and> \<bar>delta\<bar> \<noteq> 135)"
proof -
  have r: "- 180 < delta \<and> delta \<le> 180"
    unfolding delta_def by (rule normalizeDeltaDeg_range)
  have c: "\<exists>k::int. delta = bearingDeg defenderPos attackerPos - normDeg facing + 360 * real_of_int k"
    unfolding delta_def by (rule normalizeDeltaDeg_cong)
  have a: "incomingArc defenderPos facing attackerPos =
     (if \<bar>delta\<bar> \<le> 45 then FRONT else if \<bar>delta\<bar> \<ge> 135 then REAR
      else if delta > 0 then RIGHT else LEFT)"
    by (simp add: incomingArc_def delta_def Let_def)
  show ?thesis
    using r c unfolding a by auto
qed

theorem incomingArc_classification_witness:
  "incomingArc \<lparr>vx = 0, vy = 0\<rparr> 0 \<lparr>vx = 1, vy = 1\<rparr> = FRONT
   \<and> incomingArc \<lparr>vx = 0, vy = 0\<rparr> 0 \<lparr>vx = - 1, vy = 1\<rparr> = REAR
   \<and> incomingArc \<lparr>vx = 0, vy = 0\<rparr> 0 \<lparr>vx = 0, vy = 1\<rparr> = RIGHT
   \<and> incomingArc \<lparr>vx = 0, vy = 0\<rparr> 0 \<lparr>vx = 0, vy = - 1\<rparr> = LEFT"
proof -
  have d1: "normalizeDeltaDeg (bearingDeg \<lparr>vx = 0, vy = 0\<rparr> \<lparr>vx = 1, vy = 1\<rparr> - normDeg 0) = 45"
    by (simp add: arc_eval arctan_one)
  have d2: "normalizeDeltaDeg (bearingDeg \<lparr>vx = 0, vy = 0\<rparr> \<lparr>vx = - 1, vy = 1\<rparr> - normDeg 0) = 135"
    by (simp add: arc_eval arctan_one arctan_minus)
  have d3: "normalizeDeltaDeg (bearingDeg \<lparr>vx = 0, vy = 0\<rparr> \<lparr>vx = 0, vy = 1\<rparr> - normDeg 0) = 90"
    by (simp add: arc_eval)
  have d4: "normalizeDeltaDeg (bearingDeg \<lparr>vx = 0, vy = 0\<rparr> \<lparr>vx = 0, vy = - 1\<rparr> - normDeg 0) = - 90"
    by (simp add: arc_eval)
  show ?thesis
    using incomingArc_classification[of "\<lparr>vx = 0, vy = 0\<rparr>" "\<lparr>vx = 1, vy = 1\<rparr>" 0]
      incomingArc_classification[of "\<lparr>vx = 0, vy = 0\<rparr>" "\<lparr>vx = - 1, vy = 1\<rparr>" 0]
      incomingArc_classification[of "\<lparr>vx = 0, vy = 0\<rparr>" "\<lparr>vx = 0, vy = 1\<rparr>" 0]
      incomingArc_classification[of "\<lparr>vx = 0, vy = 0\<rparr>" "\<lparr>vx = 0, vy = - 1\<rparr>" 0]
    unfolding d1 d2 d3 d4 by simp
qed
section \<open>Properties of the grid and of the damage model\<close>

lemma findIndex_Some:
  "findIndex P xs = Some i \<Longrightarrow> i < length xs \<and> P (xs ! i) \<and> (\<forall>j<i. \<not> P (xs ! j))"
proof (induction xs arbitrary: i)
  case Nil
  then show ?case by simp
next
  case (Cons c cs)
  show ?case
  proof (cases "P c")
    case True
    with Cons.prems show ?thesis by simp
  next
    case False
    with Cons.prems obtain i' where i': "findIndex P cs = Some i'" "i = Suc i'"
      by auto
    from Cons.IH[OF i'(1)] False i'(2) show ?thesis
      by (auto simp: nth_Cons split: nat.splits)
  qed
qed

lemma findIndex_None: "findIndex P xs = None \<longleftrightarrow> (\<forall>x\<in>set xs. \<not> P x)"
  by (induction xs) auto

lemma findIndex_update:
  "i < length xs \<Longrightarrow> P y = P (xs ! i) \<Longrightarrow> findIndex P (xs[i := y]) = findIndex P xs"
proof (induction xs arbitrary: i)
  case Nil
  then show ?case by simp
next
  case (Cons c cs)
  then show ?case by (cases i) auto
qed

lemma findIndex_by_id:
  assumes "fi < length xs"
  obtains li where "findIndex (\<lambda>c. cid c = cid (xs ! fi)) xs = Some li"
    and "li < length xs" and "cid (xs ! li) = cid (xs ! fi)"
proof (cases "findIndex (\<lambda>c. cid c = cid (xs ! fi)) xs")
  case None
  with assms show ?thesis
    by (auto simp: findIndex_None)
next
  case (Some li)
  with that show ?thesis
    by (auto dest: findIndex_Some)
qed

lemma grid_setCells [simp]:
  "cells (grid (setCells k cs)) = cs"
  "gwidth (grid (setCells k cs)) = gwidth (grid k)"
  "gheight (grid (setCells k cs)) = gheight (grid k)"
  "weapons (setCells k cs) = weapons k"
  "maxActionPoints (setCells k cs) = maxActionPoints k"
  "movementPenalty (setCells k cs) = movementPenalty k"
  "canRotateIonShields (setCells k cs) = canRotateIonShields k"
  "kname (setCells k cs) = kname k"
  by (simp_all add: setCells_def)

lemma setCells_setCells [simp]: "setCells (setCells k xs) ys = setCells k ys"
  by (simp add: setCells_def)

lemma grid_applyCoreCriticalEffect [simp]:
  "grid (applyCoreCriticalEffect k g) = grid k"
  by (simp add: applyCoreCriticalEffect_def)

lemma grid_updateArmDisablesIfNeeded [simp]:
  "grid (updateArmDisablesIfNeeded k) = grid k"
  by (simp add: updateArmDisablesIfNeeded_def Let_def)

lemma cells_markCellCriticallyDamaged:
  "cells (grid (markCellCriticallyDamaged k s)) =
     (case findIndex (\<lambda>c. cid c = s) (cells (grid k)) of
        None \<Rightarrow> cells (grid k)
      | Some i \<Rightarrow> (cells (grid k))[i := (cells (grid k) ! i)\<lparr>criticallyDamaged := True\<rparr>])"
proof (cases "findIndex (\<lambda>c. cid c = s) (cells (grid k))")
  case None
  then show ?thesis by (simp add: markCellCriticallyDamaged_def)
next
  case (Some i)
  then have "i < length (cells (grid k))" by (simp add: findIndex_Some)
  then have "criticallyDamaged (cells (grid k) ! i) \<Longrightarrow>
    (cells (grid k))[i := (cells (grid k) ! i)\<lparr>criticallyDamaged := True\<rparr>] = cells (grid k)"
    by (simp add: list_update_same_conv)
  with Some show ?thesis
    by (simp add: markCellCriticallyDamaged_def Let_def)
qed

lemma critKept_refl: "critKept k k"
  by (simp add: critKept_def list_all2_same)

lemma critKept_trans: "critKept k k' \<Longrightarrow> critKept k' k'' \<Longrightarrow> critKept k k''"
  unfolding critKept_def
  by (auto simp: list_all2_conv_all_nth)

lemma critKept_update:
  assumes "i < length (cells (grid k))"
    and "cid c = cid (cells (grid k) ! i)"
    and "maxArmorPoints c = maxArmorPoints (cells (grid k) ! i)"
    and "criticallyDamaged (cells (grid k) ! i) \<longrightarrow> criticallyDamaged c"
  shows "critKept k (setCells k ((cells (grid k))[i := c]))"
  using assms unfolding critKept_def
  by (auto simp: list_all2_conv_all_nth nth_list_update map_update list_update_same_conv
      intro!: nth_equalityI)

lemma critKept_mark: "critKept k (markCellCriticallyDamaged k s)"
proof (cases "findIndex (\<lambda>c. cid c = s) (cells (grid k))")
  case None
  then show ?thesis by (simp add: markCellCriticallyDamaged_def critKept_refl)
next
  case (Some i)
  then have i: "i < length (cells (grid k))" by (simp add: findIndex_Some)
  have "critKept k (setCells k ((cells (grid k))[i := (cells (grid k) ! i)\<lparr>criticallyDamaged := True\<rparr>]))"
    using i by (intro critKept_update) auto
  moreover have "cells (grid (markCellCriticallyDamaged k s)) =
     cells (grid (setCells k ((cells (grid k))[i := (cells (grid k) ! i)\<lparr>criticallyDamaged := True\<rparr>])))"
    using Some by (simp add: cells_markCellCriticallyDamaged)
  ultimately show ?thesis by (simp add: critKept_def)
qed

lemma gridInRange_mark:
  assumes "gridInRange k"
  shows "gridInRange (markCellCriticallyDamaged k s)"
proof (cases "findIndex (\<lambda>c. cid c = s) (cells (grid k))")
  case None
  with assms show ?thesis by (simp add: markCellCriticallyDamaged_def)
next
  case (Some i)
  then have i: "i < length (cells (grid k))" by (simp add: findIndex_Some)
  with assms have "armorInRange (cells (grid k) ! i)"
    by (simp add: gridInRange_def list_all_length)
  then have "armorInRange ((cells (grid k) ! i)\<lparr>criticallyDamaged := True\<rparr>)"
    by (simp add: armorInRange_def)
  with assms Some i show ?thesis
    unfolding gridInRange_def cells_markCellCriticallyDamaged
    by (auto simp: list_all_length nth_list_update)
qed

lemma gridInRange_apply:
  assumes "gridInRange k" and "i < length (cells (grid k))" and "0 \<le> d"
  shows "gridInRange (applyDamageToCell k i d)"
proof -
  let ?c = "cells (grid k) ! i"
  define a where "a = max 0 (armorPoints ?c - d)"
  from assms have "armorInRange ?c"
    by (simp add: gridInRange_def list_all_length)
  with \<open>0 \<le> d\<close> have "armorInRange (?c\<lparr>armorPoints := a\<rparr>)"
    by (auto simp: armorInRange_def a_def)
  with assms have k1: "gridInRange (setCells k ((cells (grid k))[i := ?c\<lparr>armorPoints := a\<rparr>]))"
    by (auto simp: gridInRange_def list_all_length nth_list_update)
  show ?thesis
    using assms(1) k1 gridInRange_mark[OF k1]
    unfolding applyDamageToCell_def Let_def a_def [symmetric]
    by (cases "a = 0") simp_all
qed

lemma critKept_apply:
  assumes "i < length (cells (grid k))"
  shows "critKept k (applyDamageToCell k i d)"
proof -
  let ?c = "cells (grid k) ! i"
  define a where "a = max 0 (armorPoints ?c - d)"
  let ?k1 = "setCells k ((cells (grid k))[i := ?c\<lparr>armorPoints := a\<rparr>])"
  have k1: "critKept k ?k1"
    using assms by (intro critKept_update) auto
  have "critKept ?k1 (markCellCriticallyDamaged ?k1 (cid ?c))"
    by (rule critKept_mark)
  with k1 have "critKept k (markCellCriticallyDamaged ?k1 (cid ?c))"
    by (rule critKept_trans)
  with k1 show ?thesis
    unfolding applyDamageToCell_def Let_def a_def [symmetric]
    by (cases "a = 0") (simp_all add: critKept_refl)
qed

lemma applyDamage_critical_noop:
  "criticallyDamaged (cells (grid k) ! i) \<Longrightarrow> applyDamageToCell k i d = k"
  by (simp add: applyDamageToCell_def)

lemma applyDamage_survives:
  assumes "\<not> criticallyDamaged (cells (grid k) ! i)" and "d < armorPoints (cells (grid k) ! i)"
  shows "applyDamageToCell k i d =
           setCells k ((cells (grid k))[i := (cells (grid k) ! i)
              \<lparr>armorPoints := armorPoints (cells (grid k) ! i) - d\<rparr>])"
  using assms by (simp add: applyDamageToCell_def Let_def max_def)

lemma applyDamage_lethal:
  assumes i: "i < length (cells (grid k))"
    and first: "findIndex (\<lambda>c. cid c = cid (cells (grid k) ! i)) (cells (grid k)) = Some i"
    and nc: "\<not> criticallyDamaged (cells (grid k) ! i)"
    and d: "armorPoints (cells (grid k) ! i) \<le> d"
  shows "applyDamageToCell k i d =
           (let c = cells (grid k) ! i;
                k1 = setCells k ((cells (grid k))[i := c\<lparr>armorPoints := 0, criticallyDamaged := True\<rparr>]);
                k2 = applyCoreCriticalEffect k1 (cgroup c)
            in if cgroup c = 3 then updateArmDisablesIfNeeded k2 else k2)"
proof -
  let ?c = "cells (grid k) ! i"
  let ?xs = "(cells (grid k))[i := ?c\<lparr>armorPoints := 0\<rparr>]"
  have m: "max 0 (armorPoints ?c - d) = 0" using d by simp
  have "findIndex (\<lambda>c. cid c = cid ?c) ?xs = Some i"
    using i first by (simp add: findIndex_update)
  then have "markCellCriticallyDamaged (setCells k ?xs) (cid ?c) =
     (let k1 = setCells k ((cells (grid k))[i := ?c\<lparr>armorPoints := 0, criticallyDamaged := True\<rparr>]);
          k2 = applyCoreCriticalEffect k1 (cgroup ?c)
      in if cgroup ?c = 3 then updateArmDisablesIfNeeded k2 else k2)"
    using i nc by (simp add: markCellCriticallyDamaged_def Let_def)
  then show ?thesis
    using nc m by (simp add: applyDamageToCell_def Let_def)
qed


lemmas knight_eval = exampleKnight_def exampleCell_def
  applyDamageToCell_def markCellCriticallyDamaged_def setCells_def applyCoreCriticalEffect_def
  updateArmDisablesIfNeeded_def disableMount_def isKnightDestroyed_def Let_def

lemma index_set_filter:
  "{n. n < length xs \<and> P (xs ! n)} = set (filter (\<lambda>n. P (xs ! n)) [0..<length xs])"
  by auto

section \<open>The arm-disable rule\<close>

lemma isArmCell_setCells [simp]: "isArmCell m (setCells k cs) c = isArmCell m k c"
  by (simp add: isArmCell_def)

lemma isArmCell_crit [simp]: "isArmCell m k (c\<lparr>criticallyDamaged := b\<rparr>) = isArmCell m k c"
  by (simp add: isArmCell_def)

lemma weapons_updateArm:
  "weapons (updateArmDisablesIfNeeded k) =
     (let ws1 = (if armBothCrit ARM_LEFT k then disableMount ARM_LEFT (weapons k) else weapons k)
      in if armBothCrit ARM_RIGHT k then disableMount ARM_RIGHT ws1 else ws1)"
proof -
  have fl: "filter (\<lambda>c. real_of_int (cx c) < (real_of_int (gwidth (grid k)) - 1) / 2)
              (filter (\<lambda>c. cgroup c = 3) (cells (grid k)))
            = filter (isArmCell ARM_LEFT k) (cells (grid k))"
    unfolding filter_filter by (rule filter_cong) (auto simp: isArmCell_def)
  have fr: "filter (\<lambda>c. real_of_int (cx c) > (real_of_int (gwidth (grid k)) - 1) / 2)
              (filter (\<lambda>c. cgroup c = 3) (cells (grid k)))
            = filter (isArmCell ARM_RIGHT k) (cells (grid k))"
    unfolding filter_filter by (rule filter_cong) (auto simp: isArmCell_def)
  show ?thesis
    unfolding updateArmDisablesIfNeeded_def Let_def fl fr armBothCrit_def
    by simp
qed

lemma filter_disableMount_other:
  "m \<noteq> m' \<Longrightarrow> filter (\<lambda>w. mount w = m) (disableMount m' ws) = filter (\<lambda>w. mount w = m) ws"
  by (induction ws) (auto simp: disableMount_def)

lemma all_disabled_disableMount:
  "list_all (\<lambda>w. mount w = m \<longrightarrow> disabled w) (disableMount m ws)"
  by (induction ws) (auto simp: disableMount_def)

lemma all_disabled_kept:
  "list_all (\<lambda>w. mount w = m \<longrightarrow> disabled w) ws
     \<Longrightarrow> list_all (\<lambda>w. mount w = m \<longrightarrow> disabled w) (disableMount m' ws)"
  by (induction ws) (auto simp: disableMount_def)

lemma not_armBothCrit:
  assumes "n < length (cells (grid k))" and "isArmCell m k (cells (grid k) ! n)"
    and "\<not> criticallyDamaged (cells (grid k) ! n)"
  shows "\<not> armBothCrit m k"
proof -
  from assms have "cells (grid k) ! n \<in> set (filter (isArmCell m k) (cells (grid k)))"
    by simp
  with assms(3) show ?thesis
    by (auto simp: armBothCrit_def list_all_iff)
qed

lemma armBothCrit_two:
  assumes "{n. n < length (cells (grid k)) \<and> isArmCell m k (cells (grid k) ! n)} = {i, j}"
    and "i \<noteq> j"
    and "criticallyDamaged (cells (grid k) ! i)" and "criticallyDamaged (cells (grid k) ! j)"
  shows "armBothCrit m k"
proof -
  have "length (filter (isArmCell m k) (cells (grid k))) = card {i, j}"
    using assms(1) by (simp add: length_filter_conv_card)
  then have l: "length (filter (isArmCell m k) (cells (grid k))) = 2"
    using assms(2) by simp
  have "criticallyDamaged c" if "c \<in> set (cells (grid k))" "isArmCell m k c" for c
  proof -
    from that(1) obtain n where n: "n < length (cells (grid k))" "c = cells (grid k) ! n"
      by (auto simp: in_set_conv_nth)
    with that(2) assms(1) have "n \<in> {i, j}" by blast
    with n assms(3,4) show ?thesis by auto
  qed
  with l show ?thesis
    by (auto simp: armBothCrit_def list_all_iff)
qed

lemma mark_group3:
  assumes "findIndex (\<lambda>c. cid c = a) (cells (grid k)) = Some i"
    and "\<not> criticallyDamaged (cells (grid k) ! i)" and "cgroup (cells (grid k) ! i) = 3"
  shows "markCellCriticallyDamaged k a =
     updateArmDisablesIfNeeded
       (setCells k ((cells (grid k))[i := (cells (grid k) ! i)\<lparr>criticallyDamaged := True\<rparr>]))"
  using assms by (simp add: markCellCriticallyDamaged_def Let_def applyCoreCriticalEffect_def)

lemma isArmCell_width:
  "gwidth (grid k') = gwidth (grid k) \<Longrightarrow> isArmCell m k' c = isArmCell m k c"
  by (simp add: isArmCell_def)

lemma list_all_filter_imp:
  "list_all (\<lambda>w. P w \<longrightarrow> Q w) ws \<Longrightarrow> list_all Q (filter P ws)"
  by (simp add: list_all_iff)

text \<open>
  Claim C9. Take a grid in which exactly two cells belong to one arm (group 3, on the left
  or on the right of the midline), found under the ids \<open>a\<close> and \<open>b\<close> and neither critically
  damaged. After the first is marked critically damaged the weapons mounted on that arm
  are as they were, so still enabled if they were; after the second is marked too, every
  weapon mounted on that arm is disabled. The condition is computed anew at every
  critical of group 3. The statement holds for the left arm and for the right arm.
\<close>

theorem arm_disable_cascade:
  assumes m: "m = ARM_LEFT \<or> m = ARM_RIGHT"
    and a: "findIndex (\<lambda>c. cid c = a) (cells (grid k)) = Some i"
    and b: "findIndex (\<lambda>c. cid c = b) (cells (grid k)) = Some j"
    and ij: "i \<noteq> j"
    and arm: "{n. n < length (cells (grid k)) \<and> isArmCell m k (cells (grid k) ! n)} = {i, j}"
    and nci: "\<not> criticallyDamaged (cells (grid k) ! i)"
    and ncj: "\<not> criticallyDamaged (cells (grid k) ! j)"
  shows "filter (\<lambda>w. mount w = m) (weapons (markCellCriticallyDamaged k a))
           = filter (\<lambda>w. mount w = m) (weapons k)
       \<and> list_all (\<lambda>w. mount w = m \<longrightarrow> disabled w)
           (weapons (markCellCriticallyDamaged (markCellCriticallyDamaged k a) b))"
proof -
  let ?cs = "cells (grid k)"
  define ci where "ci = (?cs ! i)\<lparr>criticallyDamaged := True\<rparr>"
  define cj where "cj = (?cs ! j)\<lparr>criticallyDamaged := True\<rparr>"
  define kA where "kA = setCells k (?cs[i := ci])"
  define k1 where "k1 = updateArmDisablesIfNeeded kA"
  define kB where "kB = setCells k1 (?cs[i := ci, j := cj])"
  have i: "i < length ?cs" and j: "j < length ?cs"
    using a b by (simp_all add: findIndex_Some)
  have "i \<in> {n. n < length ?cs \<and> isArmCell m k (?cs ! n)}"
    and "j \<in> {n. n < length ?cs \<and> isArmCell m k (?cs ! n)}"
    unfolding arm by simp_all
  then have ai: "isArmCell m k (?cs ! i)" and aj: "isArmCell m k (?cs ! j)"
    by simp_all
  then have gi: "cgroup (?cs ! i) = 3" and gj: "cgroup (?cs ! j) = 3"
    by (simp_all add: isArmCell_def)
  have csA: "cells (grid kA) = ?cs[i := ci]" and wA: "gwidth (grid kA) = gwidth (grid k)"
    and wsA: "weapons kA = weapons k"
    by (simp_all add: kA_def)
  have cs1: "cells (grid k1) = ?cs[i := ci]" and w1: "gwidth (grid k1) = gwidth (grid k)"
    by (simp_all add: k1_def csA wA)
  have csB: "cells (grid kB) = ?cs[i := ci, j := cj]" and wB: "gwidth (grid kB) = gwidth (grid k)"
    by (simp_all add: kB_def w1)
  have mk1: "markCellCriticallyDamaged k a = k1"
    unfolding k1_def kA_def ci_def using a nci gi by (rule mark_group3)
  have "\<not> armBothCrit m kA"
  proof (rule not_armBothCrit[of j])
    show "j < length (cells (grid kA))" using j by (simp add: csA)
    show "isArmCell m kA (cells (grid kA) ! j)"
      using aj ij by (simp add: csA isArmCell_width[OF wA])
    show "\<not> criticallyDamaged (cells (grid kA) ! j)" using ncj ij by (simp add: csA)
  qed
  then have "filter (\<lambda>w. mount w = m) (weapons k1) = filter (\<lambda>w. mount w = m) (weapons k)"
    using m unfolding k1_def weapons_updateArm wsA
    by (auto simp: Let_def filter_disableMount_other)
  then have first: "filter (\<lambda>w. mount w = m) (weapons (markCellCriticallyDamaged k a))
      = filter (\<lambda>w. mount w = m) (weapons k)"
    unfolding mk1 .
  have b1: "findIndex (\<lambda>c. cid c = b) (cells (grid k1)) = Some j"
    unfolding cs1 using b i by (simp add: findIndex_update ci_def)
  have ncj1: "\<not> criticallyDamaged (cells (grid k1) ! j)"
    unfolding cs1 using ncj ij by simp
  have gj1: "cgroup (cells (grid k1) ! j) = 3"
    unfolding cs1 using gj ij by simp
  have "markCellCriticallyDamaged k1 b = updateArmDisablesIfNeeded
      (setCells k1 ((cells (grid k1))[j := (cells (grid k1) ! j)\<lparr>criticallyDamaged := True\<rparr>]))"
    using b1 ncj1 gj1 by (rule mark_group3)
  also have "(cells (grid k1))[j := (cells (grid k1) ! j)\<lparr>criticallyDamaged := True\<rparr>]
      = ?cs[i := ci, j := cj]"
    unfolding cs1 cj_def using ij by simp
  finally have mk2: "markCellCriticallyDamaged k1 b = updateArmDisablesIfNeeded kB"
    unfolding kB_def .
  have same: "isArmCell m kB (cells (grid kB) ! n) = isArmCell m k (?cs ! n)"
    if "n < length ?cs" for n
    unfolding csB isArmCell_width[OF wB] using that
    by (cases "n = i"; cases "n = j") (simp_all add: ci_def cj_def)
  have "{n. n < length (cells (grid kB)) \<and> isArmCell m kB (cells (grid kB) ! n)}
      = {n. n < length ?cs \<and> isArmCell m k (?cs ! n)}"
  proof (rule Collect_cong)
    fix n
    have "length (cells (grid kB)) = length ?cs" by (simp add: csB)
    with same[of n] show "(n < length (cells (grid kB)) \<and> isArmCell m kB (cells (grid kB) ! n))
        = (n < length ?cs \<and> isArmCell m k (?cs ! n))"
      by auto
  qed
  then have setB: "{n. n < length (cells (grid kB)) \<and> isArmCell m kB (cells (grid kB) ! n)} = {i, j}"
    using arm by simp
  have "armBothCrit m kB"
  proof (rule armBothCrit_two[OF setB ij])
    show "criticallyDamaged (cells (grid kB) ! i)"
      unfolding csB using i ij by (simp add: ci_def)
    show "criticallyDamaged (cells (grid kB) ! j)"
      unfolding csB using j by (simp add: cj_def)
  qed
  then have "list_all (\<lambda>w. mount w = m \<longrightarrow> disabled w) (weapons (updateArmDisablesIfNeeded kB))"
    using m unfolding weapons_updateArm
    by (auto simp: Let_def all_disabled_disableMount all_disabled_kept)
  then have second: "list_all (\<lambda>w. mount w = m \<longrightarrow> disabled w)
      (weapons (markCellCriticallyDamaged (markCellCriticallyDamaged k a) b))"
    unfolding mk1 mk2 .
  from first second show ?thesis ..
qed


theorem arm_disable_cascade_witness:
  "filter (\<lambda>w. mount w = ARM_LEFT) (weapons (markCellCriticallyDamaged exampleKnight ''A1''))
     = [\<lparr>wname = ''Cannon'', mount = ARM_LEFT, disabled = False\<rparr>]
   \<and> map wname (filter (\<lambda>w. mount w = ARM_LEFT)
        (weapons (markCellCriticallyDamaged (markCellCriticallyDamaged exampleKnight ''A1'') ''A2'')))
       = [''Cannon'']
   \<and> list_all disabled (filter (\<lambda>w. mount w = ARM_LEFT)
        (weapons (markCellCriticallyDamaged (markCellCriticallyDamaged exampleKnight ''A1'') ''A2'')))
   \<and> map wname (filter (\<lambda>w. mount w = ARM_RIGHT)
        (weapons (markCellCriticallyDamaged (markCellCriticallyDamaged exampleKnight ''B3'') ''B4'')))
       = [''Chainsword'']
   \<and> list_all disabled (filter (\<lambda>w. mount w = ARM_RIGHT)
        (weapons (markCellCriticallyDamaged (markCellCriticallyDamaged exampleKnight ''B3'') ''B4'')))"
proof -
  have l: "{n. n < length (cells (grid exampleKnight))
              \<and> isArmCell ARM_LEFT exampleKnight (cells (grid exampleKnight) ! n)} = {0, 1}"
    unfolding index_set_filter
    by (simp add: exampleKnight_def exampleCell_def isArmCell_def eval_nat_numeral)
  have r: "{n. n < length (cells (grid exampleKnight))
              \<and> isArmCell ARM_RIGHT exampleKnight (cells (grid exampleKnight) ! n)} = {6, 7}"
    unfolding index_set_filter
    by (simp add: exampleKnight_def exampleCell_def isArmCell_def eval_nat_numeral)
  have w: "filter (\<lambda>w. mount w = ARM_LEFT) (weapons exampleKnight)
      = [\<lparr>wname = ''Cannon'', mount = ARM_LEFT, disabled = False\<rparr>]"
    by (simp add: exampleKnight_def)
  have nl: "map wname (filter (\<lambda>w. mount w = ARM_LEFT)
        (weapons (markCellCriticallyDamaged (markCellCriticallyDamaged exampleKnight ''A1'') ''A2'')))
       = [''Cannon'']"
    by (simp add: knight_eval)
  have nr: "map wname (filter (\<lambda>w. mount w = ARM_RIGHT)
        (weapons (markCellCriticallyDamaged (markCellCriticallyDamaged exampleKnight ''B3'') ''B4'')))
       = [''Chainsword'']"
    by (simp add: knight_eval)
  have left: "filter (\<lambda>w. mount w = ARM_LEFT) (weapons (markCellCriticallyDamaged exampleKnight ''A1''))
           = filter (\<lambda>w. mount w = ARM_LEFT) (weapons exampleKnight)
       \<and> list_all (\<lambda>w. mount w = ARM_LEFT \<longrightarrow> disabled w)
           (weapons (markCellCriticallyDamaged (markCellCriticallyDamaged exampleKnight ''A1'') ''A2''))"
    using l by (intro arm_disable_cascade[where i = 0 and j = 1])
      (simp_all add: exampleKnight_def exampleCell_def)
  have right: "filter (\<lambda>w. mount w = ARM_RIGHT) (weapons (markCellCriticallyDamaged exampleKnight ''B3''))
           = filter (\<lambda>w. mount w = ARM_RIGHT) (weapons exampleKnight)
       \<and> list_all (\<lambda>w. mount w = ARM_RIGHT \<longrightarrow> disabled w)
           (weapons (markCellCriticallyDamaged (markCellCriticallyDamaged exampleKnight ''B3'') ''B4''))"
    using r by (intro arm_disable_cascade[where i = 6 and j = 7])
      (simp_all add: exampleKnight_def exampleCell_def)
  from left have l1: "filter (\<lambda>w. mount w = ARM_LEFT) (weapons (markCellCriticallyDamaged exampleKnight ''A1''))
     = [\<lparr>wname = ''Cannon'', mount = ARM_LEFT, disabled = False\<rparr>]"
    unfolding w by (rule conjunct1)
  from left have l2: "list_all disabled (filter (\<lambda>w. mount w = ARM_LEFT)
        (weapons (markCellCriticallyDamaged (markCellCriticallyDamaged exampleKnight ''A1'') ''A2'')))"
    by (intro list_all_filter_imp) (rule conjunct2)
  from right have r2: "list_all disabled (filter (\<lambda>w. mount w = ARM_RIGHT)
        (weapons (markCellCriticallyDamaged (markCellCriticallyDamaged exampleKnight ''B3'') ''B4'')))"
    by (intro list_all_filter_imp) (rule conjunct2)
  from l1 nl l2 nr r2 show ?thesis by blast
qed

section \<open>The destroyed threshold\<close>

text \<open>
  Claim C5. A Knight is destroyed exactly when at least six of its cells are critically
  damaged. The groups of the cells play no part: retagging every cell leaves the answer
  unchanged. With exactly five critically damaged cells the Knight is not destroyed, with
  six it is.
\<close>

theorem isKnightDestroyed_threshold:
  "isKnightDestroyed k
     = (6 \<le> card {n. n < length (cells (grid k)) \<and> criticallyDamaged (cells (grid k) ! n)})
   \<and> isKnightDestroyed (setCells k (map (\<lambda>c. c\<lparr>cgroup := f c\<rparr>) (cells (grid k))))
       = isKnightDestroyed k
   \<and> (length (filter criticallyDamaged (cells (grid k))) = 5 \<longrightarrow> \<not> isKnightDestroyed k)
   \<and> (length (filter criticallyDamaged (cells (grid k))) = 6 \<longrightarrow> isKnightDestroyed k)"
proof -
  have "filter criticallyDamaged (map (\<lambda>c. c\<lparr>cgroup := f c\<rparr>) (cells (grid k)))
      = map (\<lambda>c. c\<lparr>cgroup := f c\<rparr>) (filter criticallyDamaged (cells (grid k)))"
    by (simp add: filter_map comp_def)
  then have "length (filter criticallyDamaged (map (\<lambda>c. c\<lparr>cgroup := f c\<rparr>) (cells (grid k))))
      = length (filter criticallyDamaged (cells (grid k)))"
    by simp
  then show ?thesis
    by (simp add: isKnightDestroyed_def Let_def length_filter_conv_card)
qed

theorem isKnightDestroyed_threshold_witness:
  "\<not> isKnightDestroyed (exampleWrecked 5) \<and> isKnightDestroyed (exampleWrecked 6)"
proof -
  have "length (filter criticallyDamaged (cells (grid (exampleWrecked 5)))) = 5"
    by (simp add: exampleWrecked_def knight_eval)
  moreover have "length (filter criticallyDamaged (cells (grid (exampleWrecked 6)))) = 6"
    by (simp add: exampleWrecked_def knight_eval)
  ultimately show ?thesis
    using isKnightDestroyed_threshold[where k = "exampleWrecked 5" and f = cgroup]
      isKnightDestroyed_threshold[where k = "exampleWrecked 6" and f = cgroup]
    by blast
qed

section \<open>Properties of the attack resolution\<close>

lemma scatterShot_index:
  "si < length (cells dg) \<Longrightarrow> scatterShot dg si w t hm d g = (Some fi, sl, g')
     \<Longrightarrow> fi < length (cells dg)"
  by (auto simp: scatterShot_def Let_def findIndex_Some split: if_splits prod.splits)

lemma rollDamage_nonneg: "rollDamage w d b g = (dmg, g') \<Longrightarrow> 0 \<le> dmg"
  by (auto simp: rollDamage_def Let_def split: prod.splits)

lemma resolveAttack_cases:
  "\<exists>r. resolveAttackMutating args g = Inr r \<and> attackerAfter r = attacker args \<and>
     ((\<exists>m. outcome r = MISS m) \<and> defenderAfter r = defender args
      \<or> (\<exists>s. outcome r = SAVED s) \<and> defenderAfter r = defender args
      \<or> (\<exists>h li. outcome r = HIT h \<and> li < length (cells (grid (defender args)))
            \<and> findIndex (\<lambda>c. cid c = h_cellId h) (cells (grid (defender args))) = Some li
            \<and> h_finalCellId h = h_cellId h
            \<and> 0 < armorPoints (cells (grid (defender args)) ! li)
            \<and> 0 \<le> h_damage h
            \<and> defenderAfter r = applyDamageToCell (defender args) li (h_damage h)
            \<and> h_destroyed h = isKnightDestroyed (defenderAfter r)))"
proof (cases "findIndex (\<lambda>c. cid c = targetCellId args) (cells (grid (defender args)))")
  case None
  then show ?thesis
    by (simp add: resolveAttackMutating_def Let_def)
next
  case (Some si)
  then have si: "si < length (cells (grid (defender args)))"
    by (simp add: findIndex_Some)
  let ?arc = "incomingArc (defenderPos args) (defenderFacingDeg args) (attackerPos args)"
  let ?d = "case dice args of Some d' \<Rightarrow> d' | None \<Rightarrow> noOverrides"
  let ?dcells = "cells (grid (defender args))"
  obtain finalCell slog g1 where sc:
    "scatterShot (grid (defender args)) si (weapon args) (attackType args)
       (if ?arc = LEFT then - 1 else if ?arc = RIGHT then 1 else 0) ?d g = (finalCell, slog, g1)"
    by (metis prod_cases3)
  show ?thesis
  proof (cases finalCell)
    case None
    with Some sc show ?thesis
      by (simp add: resolveAttackMutating_def Let_def)
  next
    case fc: (Some fi)
    with sc si have fi: "fi < length ?dcells"
      by (auto dest: scatterShot_index)
    then obtain li where li: "findIndex (\<lambda>c. cid c = cid (?dcells ! fi)) ?dcells = Some li"
      "li < length ?dcells" "cid (?dcells ! li) = cid (?dcells ! fi)"
      by (rule findIndex_by_id)
    let ?ion = "scatter (weapon args)
      \<and> ?arc = (case defenderIonShieldArc args of Some a \<Rightarrow> a | None \<Rightarrow> FRONT)"
    obtain ionDie g2 where ion: "(if ?ion then orRoll (ionSave ?d) g1 else (0, g1)) = (ionDie, g2)"
      by (metis surj_pair)
    obtain saveDie g3 where sv: "orRoll (save ?d) g2 = (saveDie, g3)"
      by (metis surj_pair)
    obtain dmg g4 where dm: "rollDamage (weapon args) ?d
        (if ?arc = LEFT \<or> ?arc = RIGHT \<or> ?arc = REAR then 1 else 0) g3 = (dmg, g4)"
      by (metis surj_pair)
    from dm have "0 \<le> dmg" by (rule rollDamage_nonneg)
    then show ?thesis
      using Some sc fc li ion sv dm
      by (simp add: resolveAttackMutating_def Let_def)
  qed
qed

lemmas attack_eval = resolveAttackMutating_def scatterShot_def rollDamage_def orRoll_def
  rollD6_def noOverrides_def horizontalShift_def verticalShift_def horizSymbol_def
  vertSymbol_def exampleArgs_def exampleCannon_def exampleRng_def exampleDice_def

text \<open>Three resolutions on the example Knight: a shot that scatters off the grid, a shot
  stopped by the armour save, and a hit on the cell B2.\<close>

lemma front_arc: "incomingArc \<lparr>vx = 0, vy = 0\<rparr> 0 \<lparr>vx = 10, vy = 0\<rparr> = FRONT"
  by (simp add: arc_eval)

lemma example_miss:
  "\<exists>r. resolveAttackMutating (exampleArgs exampleKnight SNAP ''A1'' (exampleDice 1 1 1 1)) exampleRng = Inr r
     \<and> outcome r = MISS \<lparr>m_targetCellId = ''A1'', m_finalCellId = None,
          m_reason = ''Scatter moved shot off-grid.'', m_incomingArc = FRONT,
          m_scatter = Some \<lparr>s_red = 1, s_redRaw = None, s_blue = 1,
            s_horizSymbol = Arrows ArrowLeft 3, s_vertSymbol = Arrows ArrowUp 3,
            s_horizShift = 3, s_vertShift = 3\<rparr>\<rparr>"
  by (simp add: attack_eval front_arc knight_eval)

lemma example_saved:
  "\<exists>r. resolveAttackMutating (exampleArgs exampleKnight STANDARD ''B2'' (exampleDice 3 3 1 5)) exampleRng = Inr r
     \<and> (\<exists>sv. outcome r = SAVED sv \<and> sv_savedBy sv = ARMOUR \<and> sv_cellId sv = ''B2'')"
  by (simp add: attack_eval front_arc knight_eval)

lemma example_hit:
  "\<exists>r. resolveAttackMutating (exampleArgs exampleKnight STANDARD ''B2'' (exampleDice 3 3 1 4)) exampleRng = Inr r
     \<and> (\<exists>h. outcome r = HIT h \<and> h_finalCellId h = ''B2'' \<and> h_damage h = 2
          \<and> a_roll (h_armourSave h) = 4 \<and> \<not> h_destroyed h)"
  by (simp add: attack_eval front_arc knight_eval)


section \<open>Invariants of the damage model\<close>

lemma gridInRange_resolve:
  assumes "resolveAttackMutating args g = Inr r"
  shows "critKept (defender args) (defenderAfter r)
       \<and> (gridInRange (defender args) \<longrightarrow> gridInRange (defenderAfter r))"
proof -
  from resolveAttack_cases[of args g] assms
  have "defenderAfter r = defender args
      \<or> (\<exists>li dmg. li < length (cells (grid (defender args))) \<and> 0 \<le> dmg
            \<and> defenderAfter r = applyDamageToCell (defender args) li dmg)"
    by force
  then show ?thesis
  proof (elim disjE exE conjE)
    assume "defenderAfter r = defender args"
    then show ?thesis by (simp add: critKept_refl)
  next
    fix li dmg
    assume "li < length (cells (grid (defender args)))" "0 \<le> dmg"
      "defenderAfter r = applyDamageToCell (defender args) li dmg"
    then show ?thesis
      by (simp add: critKept_apply gridInRange_apply)
  qed
qed

text \<open>
  Claim C4. The operations of the damage model keep every cell of a grid within its
  bounds and never clear a critical-damage flag. For \<open>applyDamageToCell\<close> on a cell of
  the grid: a damage amount that is not negative keeps the armour points of every cell
  between zero and the maximum; damage to a cell that is already critically damaged
  returns the Knight as it was; damage below the armour points of the cell only lowers
  them; damage that brings them to zero marks the cell critically damaged and applies the
  effect of its group once, and a further application changes nothing. The attack
  resolver, which passes only amounts floored at zero, keeps both properties for every
  input.
\<close>

theorem damage_model_invariants:
  assumes "i < length (cells (grid k))"
  shows "(0 \<le> d \<and> gridInRange k \<longrightarrow> gridInRange (applyDamageToCell k i d))
    \<and> critKept k (applyDamageToCell k i d)
    \<and> (criticallyDamaged (cells (grid k) ! i) \<longrightarrow> applyDamageToCell k i d = k)
    \<and> (\<not> criticallyDamaged (cells (grid k) ! i) \<and> d < armorPoints (cells (grid k) ! i) \<longrightarrow>
         applyDamageToCell k i d =
           setCells k ((cells (grid k))[i := (cells (grid k) ! i)
              \<lparr>armorPoints := armorPoints (cells (grid k) ! i) - d\<rparr>]))
    \<and> (\<not> criticallyDamaged (cells (grid k) ! i) \<and> armorPoints (cells (grid k) ! i) \<le> d
        \<and> findIndex (\<lambda>c. cid c = cid (cells (grid k) ! i)) (cells (grid k)) = Some i \<longrightarrow>
         applyDamageToCell k i d =
           (let c = cells (grid k) ! i;
                k1 = setCells k ((cells (grid k))[i := c\<lparr>armorPoints := 0, criticallyDamaged := True\<rparr>]);
                k2 = applyCoreCriticalEffect k1 (cgroup c)
            in if cgroup c = 3 then updateArmDisablesIfNeeded k2 else k2)
         \<and> cells (grid (applyDamageToCell k i d)) =
             (cells (grid k))[i := (cells (grid k) ! i)\<lparr>armorPoints := 0, criticallyDamaged := True\<rparr>]
         \<and> applyDamageToCell (applyDamageToCell k i d) i d' = applyDamageToCell k i d)
    \<and> (gridInRange k \<longrightarrow> gridInRange (markCellCriticallyDamaged k s))
    \<and> critKept k (markCellCriticallyDamaged k s)
    \<and> (\<forall>args g r. resolveAttackMutating args g = Inr r \<longrightarrow>
          critKept (defender args) (defenderAfter r)
          \<and> (gridInRange (defender args) \<longrightarrow> gridInRange (defenderAfter r))
          \<and> (\<forall>h. outcome r = HIT h \<longrightarrow>
                (\<exists>li. li < length (cells (grid (defender args)))
                   \<and> findIndex (\<lambda>c. cid c = cid (cells (grid (defender args)) ! li))
                        (cells (grid (defender args))) = Some li
                   \<and> 0 \<le> h_damage h
                   \<and> defenderAfter r = applyDamageToCell (defender args) li (h_damage h))))"
proof -
  have lethal: "applyDamageToCell k i d =
           (let c = cells (grid k) ! i;
                k1 = setCells k ((cells (grid k))[i := c\<lparr>armorPoints := 0, criticallyDamaged := True\<rparr>]);
                k2 = applyCoreCriticalEffect k1 (cgroup c)
            in if cgroup c = 3 then updateArmDisablesIfNeeded k2 else k2)
         \<and> cells (grid (applyDamageToCell k i d)) =
             (cells (grid k))[i := (cells (grid k) ! i)\<lparr>armorPoints := 0, criticallyDamaged := True\<rparr>]
         \<and> applyDamageToCell (applyDamageToCell k i d) i d' = applyDamageToCell k i d"
    if nc: "\<not> criticallyDamaged (cells (grid k) ! i)"
      and le: "armorPoints (cells (grid k) ! i) \<le> d"
      and first: "findIndex (\<lambda>c. cid c = cid (cells (grid k) ! i)) (cells (grid k)) = Some i"
  proof -
    note e = applyDamage_lethal[OF assms first nc le]
    have c: "cells (grid (applyDamageToCell k i d)) =
        (cells (grid k))[i := (cells (grid k) ! i)\<lparr>armorPoints := 0, criticallyDamaged := True\<rparr>]"
      unfolding e by (simp add: Let_def)
    have "criticallyDamaged (cells (grid (applyDamageToCell k i d)) ! i)"
      unfolding c using assms by simp
    then have "applyDamageToCell (applyDamageToCell k i d) i d' = applyDamageToCell k i d"
      by (rule applyDamage_critical_noop)
    with e c show ?thesis by blast
  qed
  have hit: "\<exists>li. li < length (cells (grid (defender args)))
                   \<and> findIndex (\<lambda>c. cid c = cid (cells (grid (defender args)) ! li))
                        (cells (grid (defender args))) = Some li
                   \<and> 0 \<le> h_damage h
                   \<and> defenderAfter r = applyDamageToCell (defender args) li (h_damage h)"
    if "resolveAttackMutating args g = Inr r" and "outcome r = HIT h" for args g r h
  proof -
    from resolveAttack_cases[of args g] that
    obtain li where li: "li < length (cells (grid (defender args)))"
      "findIndex (\<lambda>c. cid c = h_cellId h) (cells (grid (defender args))) = Some li"
      "0 \<le> h_damage h"
      "defenderAfter r = applyDamageToCell (defender args) li (h_damage h)"
      by force
    from findIndex_Some[OF li(2)] have "cid (cells (grid (defender args)) ! li) = h_cellId h"
      by simp
    with li show ?thesis by auto
  qed
  have res: "critKept (defender args) (defenderAfter r)
          \<and> (gridInRange (defender args) \<longrightarrow> gridInRange (defenderAfter r))
          \<and> (\<forall>h. outcome r = HIT h \<longrightarrow>
                (\<exists>li. li < length (cells (grid (defender args)))
                   \<and> findIndex (\<lambda>c. cid c = cid (cells (grid (defender args)) ! li))
                        (cells (grid (defender args))) = Some li
                   \<and> 0 \<le> h_damage h
                   \<and> defenderAfter r = applyDamageToCell (defender args) li (h_damage h)))"
    if "resolveAttackMutating args g = Inr r" for args g r
    using gridInRange_resolve[OF that] hit[OF that] by blast
  have rest: "(0 \<le> d \<and> gridInRange k \<longrightarrow> gridInRange (applyDamageToCell k i d))
    \<and> critKept k (applyDamageToCell k i d)
    \<and> (criticallyDamaged (cells (grid k) ! i) \<longrightarrow> applyDamageToCell k i d = k)
    \<and> (\<not> criticallyDamaged (cells (grid k) ! i) \<and> d < armorPoints (cells (grid k) ! i) \<longrightarrow>
         applyDamageToCell k i d =
           setCells k ((cells (grid k))[i := (cells (grid k) ! i)
              \<lparr>armorPoints := armorPoints (cells (grid k) ! i) - d\<rparr>]))
    \<and> (gridInRange k \<longrightarrow> gridInRange (markCellCriticallyDamaged k s))
    \<and> critKept k (markCellCriticallyDamaged k s)"
    using assms
    by (auto simp: gridInRange_apply critKept_apply applyDamage_critical_noop
        applyDamage_survives gridInRange_mark critKept_mark)
  from rest lethal res show ?thesis
    by blast
qed

theorem damage_model_invariants_witness:
  "gridInRange exampleKnight
   \<and> gridInRange (applyDamageToCell exampleKnight 3 5)
   \<and> armorPoints (cells (grid (applyDamageToCell exampleKnight 3 5)) ! 3) = 0
   \<and> criticallyDamaged (cells (grid (applyDamageToCell exampleKnight 3 5)) ! 3)
   \<and> movementPenalty (applyDamageToCell exampleKnight 3 5) = 1
   \<and> applyDamageToCell (applyDamageToCell exampleKnight 3 5) 3 7 = applyDamageToCell exampleKnight 3 5
   \<and> armorPoints (cells (grid (applyDamageToCell exampleKnight 5 2)) ! 5) = 1
   \<and> maxActionPoints (applyDamageToCell exampleKnight 5 2) = 4
   \<and> applyDamageToCell (exampleWrecked 5) 0 9 = exampleWrecked 5
   \<and> gridInRange (markCellCriticallyDamaged exampleKnight ''A4'')
   \<and> (\<exists>r. resolveAttackMutating
              (exampleArgs exampleKnight STANDARD ''B2'' (exampleDice 3 3 1 4)) exampleRng = Inr r
          \<and> gridInRange (defenderAfter r))"
proof -
  have r: "gridInRange exampleKnight"
    by (simp add: gridInRange_def armorInRange_def exampleKnight_def exampleCell_def)
  have i: "3 < length (cells (grid exampleKnight))" "5 < length (cells (grid exampleKnight))"
    by (simp_all add: exampleKnight_def)
  have f: "findIndex (\<lambda>c. cid c = cid (cells (grid exampleKnight) ! 3)) (cells (grid exampleKnight)) = Some 3"
    by (simp add: exampleKnight_def exampleCell_def)
  have c: "\<not> criticallyDamaged (cells (grid exampleKnight) ! 3)
      \<and> armorPoints (cells (grid exampleKnight) ! 3) \<le> 5
      \<and> cgroup (cells (grid exampleKnight) ! 3) = 8"
    "\<not> criticallyDamaged (cells (grid exampleKnight) ! 5)
      \<and> 2 < armorPoints (cells (grid exampleKnight) ! 5)
      \<and> armorPoints (cells (grid exampleKnight) ! 5) = 3"
    by (simp_all add: exampleKnight_def exampleCell_def)
  note t1 = damage_model_invariants[OF i(1), where d = 5 and d' = 7 and s = "''A4''"]
  note t2 = damage_model_invariants[OF i(2), where d = 2 and d' = 0 and s = "''B2''"]
  have n: "(0::int) \<le> 5" by simp
  from t1 r n have a1: "gridInRange (applyDamageToCell exampleKnight 3 5)"
    by blast
  from t1 f c(1) have a2: "applyDamageToCell exampleKnight 3 5 =
           (let c = cells (grid exampleKnight) ! 3;
                k1 = setCells exampleKnight ((cells (grid exampleKnight))[3 := c\<lparr>armorPoints := 0, criticallyDamaged := True\<rparr>]);
                k2 = applyCoreCriticalEffect k1 (cgroup c)
            in if cgroup c = 3 then updateArmDisablesIfNeeded k2 else k2)"
    by blast
  from t1 f c(1) have a3: "cells (grid (applyDamageToCell exampleKnight 3 5)) =
             (cells (grid exampleKnight))[3 := (cells (grid exampleKnight) ! 3)\<lparr>armorPoints := 0, criticallyDamaged := True\<rparr>]"
    by blast
  from t1 f c(1) have a4: "applyDamageToCell (applyDamageToCell exampleKnight 3 5) 3 7 = applyDamageToCell exampleKnight 3 5"
    by blast
  from t2 c(2) have b1: "applyDamageToCell exampleKnight 5 2 =
           setCells exampleKnight ((cells (grid exampleKnight))[5 := (cells (grid exampleKnight) ! 5)
              \<lparr>armorPoints := armorPoints (cells (grid exampleKnight) ! 5) - 2\<rparr>])"
    by blast
  have m: "movementPenalty (applyDamageToCell exampleKnight 3 5) = 1"
    unfolding a2 using c(1)
    by (simp add: Let_def applyCoreCriticalEffect_def) (simp add: exampleKnight_def)
  have z: "armorPoints (cells (grid (applyDamageToCell exampleKnight 3 5)) ! 3) = 0
      \<and> criticallyDamaged (cells (grid (applyDamageToCell exampleKnight 3 5)) ! 3)"
    unfolding a3 using i(1) by simp
  have y: "armorPoints (cells (grid (applyDamageToCell exampleKnight 5 2)) ! 5) = 1
      \<and> maxActionPoints (applyDamageToCell exampleKnight 5 2) = 4"
    unfolding b1 using i(2) c(2) by (simp) (simp add: exampleKnight_def)
  have w0: "0 < length (cells (grid (exampleWrecked 5)))"
    "criticallyDamaged (cells (grid (exampleWrecked 5)) ! 0)"
    by (simp_all add: exampleWrecked_def knight_eval)
  from damage_model_invariants[OF w0(1), where d = 9 and d' = 0 and s = "''A1''"] w0(2)
  have x: "applyDamageToCell (exampleWrecked 5) 0 9 = exampleWrecked 5"
    by blast
  from t1 r have v: "gridInRange (markCellCriticallyDamaged exampleKnight ''A4'')"
    by blast
  obtain res where res: "resolveAttackMutating
      (exampleArgs exampleKnight STANDARD ''B2'' (exampleDice 3 3 1 4)) exampleRng = Inr res"
    using example_hit by blast
  have "defender (exampleArgs exampleKnight STANDARD ''B2'' (exampleDice 3 3 1 4)) = exampleKnight"
    by (simp add: exampleArgs_def)
  with t1 res r have "gridInRange (defenderAfter res)"
    by metis
  with res have u: "\<exists>r. resolveAttackMutating
              (exampleArgs exampleKnight STANDARD ''B2'' (exampleDice 3 3 1 4)) exampleRng = Inr r
          \<and> gridInRange (defenderAfter r)"
    by blast
  from r a1 a4 m z y x v u show ?thesis by simp
qed

section \<open>What a single attack changes\<close>

text \<open>
  Claim C10. Every single-shot resolution returns, and it never changes the attacker.
  When the outcome is MISS or SAVED the defender is returned as it was. The defender
  changes only when the outcome is HIT, and then it is the result of one application of
  the damage of the outcome to the final cell.
\<close>

theorem resolveAttack_mutation:
  "\<exists>r. resolveAttackMutating args g = Inr r
      \<and> attackerAfter r = attacker args
      \<and> ((\<exists>m. outcome r = MISS m) \<or> (\<exists>sv. outcome r = SAVED sv)
            \<longrightarrow> defenderAfter r = defender args)
      \<and> (defenderAfter r \<noteq> defender args \<longrightarrow> (\<exists>h. outcome r = HIT h))
      \<and> (\<forall>h. outcome r = HIT h \<longrightarrow>
            (\<exists>li. findIndex (\<lambda>c. cid c = h_finalCellId h) (cells (grid (defender args))) = Some li
               \<and> defenderAfter r = applyDamageToCell (defender args) li (h_damage h)))"
  using resolveAttack_cases[of args g] by force

theorem resolveAttack_mutation_witness:
  "(\<exists>r. resolveAttackMutating (exampleArgs exampleKnight SNAP ''A1'' (exampleDice 1 1 1 1)) exampleRng = Inr r
        \<and> attackerAfter r = exampleKnight \<and> defenderAfter r = exampleKnight)
   \<and> (\<exists>r. resolveAttackMutating (exampleArgs exampleKnight STANDARD ''B2'' (exampleDice 3 3 1 5)) exampleRng = Inr r
        \<and> attackerAfter r = exampleKnight \<and> defenderAfter r = exampleKnight)
   \<and> (\<exists>r. resolveAttackMutating (exampleArgs exampleKnight STANDARD ''B2'' (exampleDice 3 3 1 4)) exampleRng = Inr r
        \<and> attackerAfter r = exampleKnight \<and> defenderAfter r = applyDamageToCell exampleKnight 5 2)"
proof -
  have args: "attacker (exampleArgs exampleKnight t c d) = exampleKnight"
    "defender (exampleArgs exampleKnight t c d) = exampleKnight" for t c d
    by (simp_all add: exampleArgs_def)
  have b2: "findIndex (\<lambda>c. cid c = ''B2'') (cells (grid exampleKnight)) = Some 5"
    by (simp add: exampleKnight_def exampleCell_def)
  have one: "\<exists>r. resolveAttackMutating (exampleArgs exampleKnight SNAP ''A1'' (exampleDice 1 1 1 1)) exampleRng = Inr r
        \<and> attackerAfter r = exampleKnight \<and> defenderAfter r = exampleKnight"
    using resolveAttack_mutation[of "exampleArgs exampleKnight SNAP ''A1'' (exampleDice 1 1 1 1)" exampleRng]
      example_miss
    by (auto simp: args)
  have two: "\<exists>r. resolveAttackMutating (exampleArgs exampleKnight STANDARD ''B2'' (exampleDice 3 3 1 5)) exampleRng = Inr r
        \<and> attackerAfter r = exampleKnight \<and> defenderAfter r = exampleKnight"
    using resolveAttack_mutation[of "exampleArgs exampleKnight STANDARD ''B2'' (exampleDice 3 3 1 5)" exampleRng]
      example_saved
    by (auto simp: args)
  have three: "\<exists>r. resolveAttackMutating (exampleArgs exampleKnight STANDARD ''B2'' (exampleDice 3 3 1 4)) exampleRng = Inr r
        \<and> attackerAfter r = exampleKnight \<and> defenderAfter r = applyDamageToCell exampleKnight 5 2"
    using resolveAttack_mutation[of "exampleArgs exampleKnight STANDARD ''B2'' (exampleDice 3 3 1 4)" exampleRng]
      example_hit b2
    by (auto simp: args)
  from one two three show ?thesis by blast
qed

section \<open>Scatter off the grid\<close>

text \<open>
  Claim C3 as written gives a horizontal shift of 2 squares for a SNAP shot with a red die
  of 1. At the target cell A1, at coordinate (0,0) of the example grid, with both dice
  forced to 1 and the attack from the front, the shift logged by the resolver is not 2.
\<close>

theorem snap_scatter_shift_counterexample:
  "map_option s_horizShift
     (scatterOf (resolveAttackMutating
        (exampleArgs exampleKnight SNAP ''A1'' (exampleDice 1 1 1 1)) exampleRng)) \<noteq> Some 2"
  by (simp add: scatterOf_def attack_eval front_arc knight_eval)

text \<open>
  Claim C3, amended. With the target cell at coordinate (0,0), a SNAP attack of a
  scatter weapon from the FRONT arc with the red die and the blue die both forced to 1
  shifts the shot 3 squares LEFT and 3 squares UP, to a coordinate negative on both axes,
  and the outcome is MISS with the reason \<^verbatim>\<open>Scatter moved shot off-grid.\<close> and no final
  cell; neither Knight changes and no die is rolled.
\<close>

theorem snap_scatter_off_grid:
  assumes "scatter (weapon args)" and "attackType args = SNAP"
    and "dice args = Some d" and "red d = Some 1" and "blue d = Some 1"
    and "incomingArc (defenderPos args) (defenderFacingDeg args) (attackerPos args) = FRONT"
    and "findIndex (\<lambda>c. cid c = targetCellId args) (cells (grid (defender args))) = Some si"
    and "cx (cells (grid (defender args)) ! si) = 0"
    and "cy (cells (grid (defender args)) ! si) = 0"
  shows "horizontalShift SNAP 1 = (LEFT_H, 3) \<and> verticalShift SNAP 1 = (UP_V, 3)
    \<and> cx (cells (grid (defender args)) ! si) - 3 < 0 \<and> cy (cells (grid (defender args)) ! si) - 3 < 0
    \<and> resolveAttackMutating args g =
        Inr \<lparr>outcome = MISS \<lparr>m_targetCellId = targetCellId args, m_finalCellId = None,
                m_reason = ''Scatter moved shot off-grid.'', m_incomingArc = FRONT,
                m_scatter = Some \<lparr>s_red = 1, s_redRaw = None, s_blue = 1,
                  s_horizSymbol = Arrows ArrowLeft 3, s_vertSymbol = Arrows ArrowUp 3,
                  s_horizShift = 3, s_vertShift = 3\<rparr>\<rparr>,
             attackerAfter = attacker args, defenderAfter = defender args, rngAfter = g\<rparr>"
  using assms
  by (simp add: resolveAttackMutating_def scatterShot_def orRoll_def horizontalShift_def
      verticalShift_def horizSymbol_def vertSymbol_def Let_def)

theorem snap_scatter_off_grid_witness:
  "resolveAttackMutating (exampleArgs exampleKnight SNAP ''A1'' (exampleDice 1 1 1 1)) exampleRng =
     Inr \<lparr>outcome = MISS \<lparr>m_targetCellId = ''A1'', m_finalCellId = None,
             m_reason = ''Scatter moved shot off-grid.'', m_incomingArc = FRONT,
             m_scatter = Some \<lparr>s_red = 1, s_redRaw = None, s_blue = 1,
               s_horizSymbol = Arrows ArrowLeft 3, s_vertSymbol = Arrows ArrowUp 3,
               s_horizShift = 3, s_vertShift = 3\<rparr>\<rparr>,
          attackerAfter = exampleKnight, defenderAfter = exampleKnight, rngAfter = exampleRng\<rparr>"
proof -
  let ?args = "exampleArgs exampleKnight SNAP ''A1'' (exampleDice 1 1 1 1)"
  have "resolveAttackMutating ?args exampleRng =
        Inr \<lparr>outcome = MISS \<lparr>m_targetCellId = targetCellId ?args, m_finalCellId = None,
                m_reason = ''Scatter moved shot off-grid.'', m_incomingArc = FRONT,
                m_scatter = Some \<lparr>s_red = 1, s_redRaw = None, s_blue = 1,
                  s_horizSymbol = Arrows ArrowLeft 3, s_vertSymbol = Arrows ArrowUp 3,
                  s_horizShift = 3, s_vertShift = 3\<rparr>\<rparr>,
             attackerAfter = attacker ?args, defenderAfter = defender ?args, rngAfter = exampleRng\<rparr>"
    using snap_scatter_off_grid[where args = ?args and d = "exampleDice 1 1 1 1" and si = 0
        and g = exampleRng]
    by (simp add: exampleArgs_def exampleDice_def exampleCannon_def front_arc
        exampleKnight_def exampleCell_def)
  then show ?thesis
    by (simp add: exampleArgs_def)
qed

section \<open>The saves after a shield rotation and after the loss of the shield\<close>

lemma resolveAttack_ignores_bonus:
  "resolveAttackMutating (args\<lparr>defenderArmourSaveBonus := b\<rparr>) g
     = resolveAttackMutating (args\<lparr>defenderArmourSaveBonus := 0\<rparr>) g"
  unfolding resolveAttackMutating_def by (simp cong del: if_weak_cong option.case_cong_weak)

text \<open>
  Claim C1 says that the armour save total includes the bonus of +1 that
  ROTATE_ION_SHIELDS grants for the rest of the turn. In the example the second player
  rotates, so that the bonus recorded for that player is 1 and the attack of the first
  player passes 1 as \<open>defenderArmourSaveBonus\<close>. With a save die of 4, armour penetration 0
  and no cover the claim gives a total of 5 and a saved shot; the resolver computes a
  total of 4 against the 5 needed, and the outcome is HIT. The resolver never reads the
  bonus (lemma \<open>resolveAttack_ignores_bonus\<close>).
\<close>

theorem rotate_bonus_not_added:
  "fst (rotateIonShieldsStep (g_knights exampleGame) [P2] (\<lambda>p. 0) []) P2 = 1
   \<and> defenderArmourSaveBonus
        (rangedAttackArgs exampleGame
           (fst (rotateIonShieldsStep (g_knights exampleGame) [P2] (\<lambda>p. 0) []))
           P1 exampleCannon STANDARD ''B2'' False (Some (exampleDice 3 3 1 4))) = 1
   \<and> (\<exists>r h. resolveAttackMutating
          (rangedAttackArgs exampleGame
             (fst (rotateIonShieldsStep (g_knights exampleGame) [P2] (\<lambda>p. 0) []))
             P1 exampleCannon STANDARD ''B2'' False (Some (exampleDice 3 3 1 4))) exampleRng = Inr r
        \<and> outcome r = HIT h
        \<and> a_die (h_armourSave h) = 4 \<and> a_mods_ap (h_armourSave h) = 0
        \<and> \<not> a_mods_cover (h_armourSave h)
        \<and> a_roll (h_armourSave h) = 4 \<and> a_needed (h_armourSave h) = 5)"
proof -
  have c: "canRotateIonShields (g_knights exampleGame P2)"
    by (simp add: exampleGame_def exampleKnight_def)
  have b: "fst (rotateIonShieldsStep (g_knights exampleGame) [P2] (\<lambda>p. 0) []) = (\<lambda>p. 0)(P2 := 1)"
    using c by simp
  show ?thesis
    unfolding b
    by (simp add: rangedAttackArgs_def enemyOf_def exampleGame_def attack_eval front_arc knight_eval)
qed

lemma destroyed_applyDamage_flag:
  "isKnightDestroyed (applyDamageToCell (k\<lparr>canRotateIonShields := b\<rparr>) i d)
     = isKnightDestroyed (applyDamageToCell k i d)"
proof -
  have "cells (grid (applyDamageToCell (k\<lparr>canRotateIonShields := b\<rparr>) i d))
      = cells (grid (applyDamageToCell k i d))"
    by (simp add: applyDamageToCell_def Let_def cells_markCellCriticallyDamaged
        split: option.split)
  then show ?thesis
    by (simp add: isKnightDestroyed_def)
qed

lemma resolveAttack_ignores_flag:
  "map_sum id outcome
     (resolveAttackMutating (args\<lparr>defender := (defender args)\<lparr>canRotateIonShields := b\<rparr>\<rparr>) g)
   = map_sum id outcome (resolveAttackMutating args g)"
proof (cases "findIndex (\<lambda>c. cid c = targetCellId args) (cells (grid (defender args)))")
  case None
  then show ?thesis
    by (simp add: resolveAttackMutating_def Let_def)
next
  case (Some si)
  let ?arc = "incomingArc (defenderPos args) (defenderFacingDeg args) (attackerPos args)"
  let ?d = "case dice args of Some d' \<Rightarrow> d' | None \<Rightarrow> noOverrides"
  let ?dcells = "cells (grid (defender args))"
  obtain finalCell slog g1 where sc:
    "scatterShot (grid (defender args)) si (weapon args) (attackType args)
       (if ?arc = LEFT then - 1 else if ?arc = RIGHT then 1 else 0) ?d g = (finalCell, slog, g1)"
    by (metis prod_cases3)
  show ?thesis
  proof (cases finalCell)
    case None
    with Some sc show ?thesis
      by (simp add: resolveAttackMutating_def Let_def)
  next
    case fc: (Some fi)
    show ?thesis
    proof (cases "findIndex (\<lambda>c. cid c = cid (?dcells ! fi)) ?dcells")
      case None
      with Some sc fc show ?thesis
        by (simp add: resolveAttackMutating_def Let_def)
    next
      case li: (Some li)
      let ?ion = "scatter (weapon args)
        \<and> ?arc = (case defenderIonShieldArc args of Some a \<Rightarrow> a | None \<Rightarrow> FRONT)"
      obtain ionDie g2 where ion: "(if ?ion then orRoll (ionSave ?d) g1 else (0, g1)) = (ionDie, g2)"
        by (metis surj_pair)
      obtain saveDie g3 where sv: "orRoll (save ?d) g2 = (saveDie, g3)"
        by (metis surj_pair)
      show ?thesis
        using Some sc fc li ion sv
        by (simp add: resolveAttackMutating_def Let_def destroyed_applyDamage_flag
            split: prod.split)
    qed
  qed
qed

text \<open>
  Claim C2 says that the ion save is attempted only while the capability flag of the
  defender is active. In the example two points of damage bring the shield mechanism A3
  (group 4) to zero, which revokes the flag; a ranged attack from the protected arc on
  that defender still rolls the ion die, and a 4 saves the shot. The outcome of a
  resolution never depends on the flag (lemma \<open>resolveAttack_ignores_flag\<close>).
\<close>

theorem ion_save_rolled_without_capability:
  "\<not> canRotateIonShields (applyDamageToCell exampleKnight 2 2)
   \<and> (\<exists>r sv. resolveAttackMutating
          (exampleArgs (applyDamageToCell exampleKnight 2 2) STANDARD ''B2'' (exampleDice 3 3 4 1))
          exampleRng = Inr r
        \<and> outcome r = SAVED sv \<and> sv_savedBy sv = ION
        \<and> sv_ionSave sv = Some \<lparr>i_attempted = True, i_die = 4, i_needed = 4, i_success = True\<rparr>)"
  by (simp add: attack_eval front_arc knight_eval)

section \<open>Line of sight\<close>

lemma losLoop_char:
  "losLoop a b ts obs cr =
     (if \<exists>t\<in>set ts. ttype t = HARD \<and> segmentIntersectsRects a b (rects t)
      then \<lparr>blocked = True, obscured = False, crossesAnyCover = True\<rparr>
      else \<lparr>blocked = False,
             obscured = (obs \<or> (\<exists>t\<in>set ts. ttype t = SOFT \<and> segmentIntersectsRects a b (rects t))),
             crossesAnyCover = (cr \<or> (\<exists>t\<in>set ts. segmentIntersectsRects a b (rects t)))\<rparr>)"
proof (induction ts arbitrary: obs cr)
  case Nil
  show ?case by simp
next
  case (Cons t ts)
  have ty: "ttype t = HARD \<or> ttype t = SOFT"
    by (cases "ttype t") simp_all
  show ?case
  proof (cases "segmentIntersectsRects a b (rects t)")
    case False
    then show ?thesis using Cons.IH by auto
  next
    case True
    show ?thesis
    proof (cases "ttype t = HARD")
      case True
      with \<open>segmentIntersectsRects a b (rects t)\<close> show ?thesis by auto
    next
      case False
      with ty have "ttype t = SOFT" by simp
      with True False show ?thesis using Cons.IH by auto
    qed
  qed
qed

lemmas los_eval = computeLosEffects_def segmentIntersectsRects_def segmentEnterT_def clip_def
  Let_def

text \<open>
  Claim C7. If the segment intersects at least one HARD piece, \<open>computeLosEffects\<close> returns
  \<open>blocked\<close> true and \<open>obscured\<close> false, however many SOFT pieces it also crosses. If it
  intersects no HARD piece, \<open>blocked\<close> is false and \<open>obscured\<close> tells whether it intersects a
  SOFT piece. \<open>crossesAnyCover\<close> is true exactly when the segment intersects a piece of
  either type. The result depends on the set of pieces only, not on their order in the
  list.
\<close>

theorem computeLosEffects_hard_wins:
  "((\<exists>t\<in>set ts. ttype t = HARD \<and> segmentIntersectsRects a b (rects t)) \<longrightarrow>
       blocked (computeLosEffects a b ts) \<and> \<not> obscured (computeLosEffects a b ts))
   \<and> (\<not> (\<exists>t\<in>set ts. ttype t = HARD \<and> segmentIntersectsRects a b (rects t)) \<longrightarrow>
       \<not> blocked (computeLosEffects a b ts)
       \<and> obscured (computeLosEffects a b ts)
           = (\<exists>t\<in>set ts. ttype t = SOFT \<and> segmentIntersectsRects a b (rects t)))
   \<and> crossesAnyCover (computeLosEffects a b ts)
       = (\<exists>t\<in>set ts. segmentIntersectsRects a b (rects t))
   \<and> (set ts' = set ts \<longrightarrow> computeLosEffects a b ts' = computeLosEffects a b ts)"
proof -
  have "set ts' = set ts \<Longrightarrow> computeLosEffects a b ts' = computeLosEffects a b ts"
    by (simp add: computeLosEffects_def losLoop_char)
  then show ?thesis
    by (auto simp: computeLosEffects_def losLoop_char)
qed

theorem computeLosEffects_hard_wins_witness:
  "computeLosEffects \<lparr>vx = 0, vy = 0\<rparr> \<lparr>vx = 4, vy = 0\<rparr> exampleCover
     = \<lparr>blocked = True, obscured = False, crossesAnyCover = True\<rparr>
   \<and> computeLosEffects \<lparr>vx = 0, vy = 0\<rparr> \<lparr>vx = 4, vy = 0\<rparr> (rev exampleCover)
     = \<lparr>blocked = True, obscured = False, crossesAnyCover = True\<rparr>
   \<and> computeLosEffects \<lparr>vx = 0, vy = 0\<rparr> \<lparr>vx = 2, vy = 0\<rparr> exampleCover
     = \<lparr>blocked = False, obscured = True, crossesAnyCover = True\<rparr>"
proof -
  let ?a = "\<lparr>vx = 0, vy = 0\<rparr>" and ?b = "\<lparr>vx = 4, vy = 0\<rparr>" and ?c = "\<lparr>vx = 2, vy = 0\<rparr>"
  have h: "\<exists>t\<in>set exampleCover. ttype t = HARD \<and> segmentIntersectsRects ?a ?b (rects t)"
    by (simp add: exampleCover_def los_eval del: not_None_eq)
  have n: "\<not> (\<exists>t\<in>set exampleCover. ttype t = HARD \<and> segmentIntersectsRects ?a ?c (rects t))"
    by (simp add: exampleCover_def los_eval del: not_None_eq)
  have s: "\<exists>t\<in>set exampleCover. ttype t = SOFT \<and> segmentIntersectsRects ?a ?c (rects t)"
    by (simp add: exampleCover_def los_eval del: not_None_eq)
  have r: "set (rev exampleCover) = set exampleCover"
    by simp
  note t1 = computeLosEffects_hard_wins[where a = ?a and b = ?b and ts = exampleCover
      and ts' = "rev exampleCover"]
  note t2 = computeLosEffects_hard_wins[where a = ?a and b = ?c and ts = exampleCover
      and ts' = exampleCover]
  from t1 h have "blocked (computeLosEffects ?a ?b exampleCover)"
    "\<not> obscured (computeLosEffects ?a ?b exampleCover)"
    "crossesAnyCover (computeLosEffects ?a ?b exampleCover)"
    by blast+
  then have one: "computeLosEffects ?a ?b exampleCover
      = \<lparr>blocked = True, obscured = False, crossesAnyCover = True\<rparr>"
    by (cases "computeLosEffects ?a ?b exampleCover") simp
  from t1 r have two: "computeLosEffects ?a ?b (rev exampleCover) = computeLosEffects ?a ?b exampleCover"
    by blast
  from t2 n s have "\<not> blocked (computeLosEffects ?a ?c exampleCover)"
    "obscured (computeLosEffects ?a ?c exampleCover)"
    "crossesAnyCover (computeLosEffects ?a ?c exampleCover)"
    by blast+
  then have three: "computeLosEffects ?a ?c exampleCover
      = \<lparr>blocked = False, obscured = True, crossesAnyCover = True\<rparr>"
    by (cases "computeLosEffects ?a ?c exampleCover") simp
  from one two three show ?thesis by simp
qed

section \<open>Grid pathfinding\<close>

lemma trail_reconstruct:
  "trail B terrain prev s n xs \<Longrightarrow> reconstructLoop prev s n out = Some (out @ xs)"
proof (induction arbitrary: out rule: trail.induct)
  case (trail_start n)
  then show ?case by (subst reconstructLoop.simps) simp
next
  case (trail_step n p xs)
  then show ?case by (subst reconstructLoop.simps) simp
qed

lemma trail_route:
  assumes "trail B terrain prev s n xs" and "\<not> isBlocked B terrain s"
  shows "last (n # xs) = s \<and> list_all (\<lambda>m. \<not> isBlocked B terrain m) (n # xs)
           \<and> successively (\<lambda>x y. adjacent y x) (n # xs)"
  using assms by (induction rule: trail.induct) auto

lemma trail_extend:
  assumes "trail B terrain prev s m xs" and "prev n = None"
  shows "trail B terrain (prev(n \<mapsto> c)) s m xs"
  using assms
proof (induction rule: trail.induct)
  case (trail_start m)
  then show ?case by (intro trail.trail_start) auto
next
  case (trail_step m p xs)
  then show ?case by (intro trail.trail_step) auto
qed

lemma reconstruct_route:
  assumes "trail B terrain prev s gl xs" and "\<not> isBlocked B terrain s"
  shows "\<exists>p. reconstruct prev s gl = Some p \<and> isRoute B terrain s gl p"
proof -
  have r: "reconstruct prev s gl = Some (rev (gl # xs))"
    using trail_reconstruct[OF assms(1), of "[gl]"] by (simp add: reconstruct_def)
  from trail_route[OF assms] have
    l: "last (gl # xs) = s" and f: "list_all (\<lambda>m. \<not> isBlocked B terrain m) (gl # xs)"
    and a: "successively (\<lambda>x y. adjacent y x) (gl # xs)"
    by blast+
  have "hd (rev (gl # xs)) = s"
    using l by (simp only: hd_rev)
  moreover have "last (rev (gl # xs)) = gl"
    by (simp only: last_rev list.sel)
  moreover have "list_all (\<lambda>m. \<not> isBlocked B terrain m) (rev (gl # xs))"
    using f by (simp only: list_all_rev)
  moreover have "successively adjacent (rev (gl # xs))"
    using a by (simp only: successively_rev)
  ultimately have "isRoute B terrain s gl (rev (gl # xs))"
    by (simp add: isRoute_def)
  with r show ?thesis by blast
qed


lemma expand_inv:
  assumes "bfsInv B terrain s q prev seen" and "cur = s \<or> cur \<in> dom prev"
    and "\<forall>d\<in>set ds. \<bar>fst d\<bar> + \<bar>snd d\<bar> = 1"
  shows "case expand B terrain s gl cur ds q prev seen of
           Found r \<Rightarrow> (\<exists>p. r = Some p \<and> isRoute B terrain s gl p)
         | Continue q' prev' seen' \<Rightarrow> bfsInv B terrain s q' prev' seen'"
  using assms
proof (induction ds arbitrary: q prev seen)
  case Nil
  then show ?case by simp
next
  case (Cons d ds)
  let ?n = "(fst cur + fst d, snd cur + snd d)"
  from Cons.prems(3) have ds: "\<forall>d\<in>set ds. \<bar>fst d\<bar> + \<bar>snd d\<bar> = 1" and d: "\<bar>fst d\<bar> + \<bar>snd d\<bar> = 1"
    by simp_all
  show ?case
  proof (cases "?n \<in> set seen \<or> isBlocked B terrain ?n")
    case True
    then have "expand B terrain s gl cur (d # ds) q prev seen = expand B terrain s gl cur ds q prev seen"
      by (auto simp: Let_def)
    with Cons.IH[OF Cons.prems(1,2) ds] show ?thesis by simp
  next
    case False
    let ?prev = "prev(?n \<mapsto> cur)"
    from Cons.prems(1) have inv:
      "\<not> isBlocked B terrain s" "s \<in> set seen" "dom prev \<subseteq> set seen" "prev s = None"
      "\<forall>n\<in>dom prev. \<exists>xs. trail B terrain prev s n xs" "\<forall>m\<in>set q. m = s \<or> m \<in> dom prev"
      by (simp_all add: bfsInv_def)
    from False inv have pn: "prev ?n = None" and ns: "?n \<noteq> s" and free: "\<not> isBlocked B terrain ?n"
      by auto
    have adj: "adjacent cur ?n"
      using d by (simp add: adjacent_def)
    have old: "\<exists>xs. trail B terrain ?prev s m xs" if "m \<in> dom prev" for m
    proof -
      from that inv(5) obtain xs where "trail B terrain prev s m xs" by blast
      from trail_extend[OF this pn] show ?thesis by blast
    qed
    have new: "\<exists>xs. trail B terrain ?prev s ?n xs"
    proof (cases "cur = s")
      case True
      have "trail B terrain ?prev s ?n [s]"
        using True free adj by (intro trail_start) auto
      then show ?thesis by blast
    next
      case False
      with Cons.prems(2) have "cur \<in> dom prev" by simp
      from old[OF this] obtain xs where "trail B terrain ?prev s cur xs" by blast
      then have "trail B terrain ?prev s ?n (cur # xs)"
        using False free adj by (intro trail_step) auto
      then show ?thesis by blast
    qed
    show ?thesis
    proof (cases "?n = gl")
      case True
      from new obtain xs where "trail B terrain ?prev s gl xs"
        using True by auto
      from reconstruct_route[OF this inv(1)]
      have "\<exists>p. reconstruct ?prev s gl = Some p \<and> isRoute B terrain s gl p" .
      moreover have "expand B terrain s gl cur (d # ds) q prev seen = Found (reconstruct ?prev s gl)"
        using False True by (simp add: Let_def)
      ultimately show ?thesis by simp
    next
      case ngl: False
      have e: "expand B terrain s gl cur (d # ds) q prev seen
                 = expand B terrain s gl cur ds (q @ [?n]) ?prev (seen @ [?n])"
        using False ngl by (simp add: Let_def)
      have inv': "bfsInv B terrain s (q @ [?n]) ?prev (seen @ [?n])"
        unfolding bfsInv_def
      proof (intro conjI ballI)
        show "\<not> isBlocked B terrain s" by (rule inv(1))
        show "s \<in> set (seen @ [?n])" using inv(2) by simp
        show "dom ?prev \<subseteq> set (seen @ [?n])" using inv(3) by auto
        show "?prev s = None" using inv(4) ns by simp
        show "\<exists>xs. trail B terrain ?prev s m xs" if "m \<in> dom ?prev" for m
          using that old new by (cases "m = ?n") auto
        show "m = s \<or> m \<in> dom ?prev" if "m \<in> set (q @ [?n])" for m
          using that inv(6) by auto
      qed
      have cur': "cur = s \<or> cur \<in> dom ?prev"
        using Cons.prems(2) by auto
      show ?thesis
        unfolding e by (rule Cons.IH[OF inv' cur' ds])
    qed
  qed
qed

lemma bfs_correct:
  "bfsInv B terrain s q prev seen \<Longrightarrow>
     bfs B terrain s gl q prev seen = Some None
     \<or> (\<exists>p. bfs B terrain s gl q prev seen = Some (Some p) \<and> isRoute B terrain s gl p)"
proof (induction B terrain s gl q prev seen rule: bfs.induct)
  case (1 B terrain s gl prev seen)
  show ?case by simp
next
  case (2 B terrain s gl cur rest prev seen)
  from "2.prems" have inv: "bfsInv B terrain s rest prev seen" and cur: "cur = s \<or> cur \<in> dom prev"
    by (simp_all add: bfsInv_def)
  have unit: "\<forall>d\<in>set dirs. \<bar>fst d\<bar> + \<bar>snd d\<bar> = 1"
    by (simp add: dirs_def)
  note e = expand_inv[OF inv cur unit, of gl]
  show ?case
  proof (cases "expand B terrain s gl cur dirs rest prev seen")
    case (Found r)
    with e obtain p where "r = Some p" "isRoute B terrain s gl p" by auto
    with Found show ?thesis by simp
  next
    case (Continue q' prev' seen')
    with e have "bfsInv B terrain s q' prev' seen'" by simp
    from "2.IH"[OF Continue this] Continue show ?thesis by simp
  qed
qed

lemma findPath_cases:
  fixes start goal terrain B
  defines "s \<equiv> (round_js (vx start), round_js (vy start))"
    and "gl \<equiv> (round_js (vx goal), round_js (vy goal))"
  shows "findPathManhattan start goal terrain B = Some None
     \<or> (\<exists>p. findPathManhattan start goal terrain B = Some (Some p) \<and> isRoute B terrain s gl p)"
proof (cases "isBlocked B terrain s \<or> isBlocked B terrain gl")
  case True
  then show ?thesis
    by (auto simp: findPathManhattan_def s_def gl_def Let_def)
next
  case False
  show ?thesis
  proof (cases "s = gl")
    case True
    with False have "findPathManhattan start goal terrain B = Some (Some [s])"
      by (auto simp: findPathManhattan_def s_def gl_def Let_def)
    moreover have "isRoute B terrain s gl [s]"
      using True False by (simp add: isRoute_def)
    ultimately show ?thesis by blast
  next
    case ne: False
    have "bfsInv B terrain s [s] Map.empty [s]"
      using False by (simp add: bfsInv_def)
    from bfs_correct[OF this, of gl]
    have "bfs B terrain s gl [s] Map.empty [s] = Some None
       \<or> (\<exists>p. bfs B terrain s gl [s] Map.empty [s] = Some (Some p) \<and> isRoute B terrain s gl p)" .
    moreover have "findPathManhattan start goal terrain B = bfs B terrain s gl [s] Map.empty [s]"
      using False ne by (auto simp: findPathManhattan_def s_def gl_def Let_def)
    ultimately show ?thesis by simp
  qed
qed

lemmas path_eval = findPathManhattan_def round_js_def isBlocked_def dirs_def reconstruct_def
  reconstructLoop.simps Let_def

lemma route_crosses_column:
  assumes "successively adjacent p" and "p \<noteq> []" and "fst (hd p) < c" and "c < fst (last p)"
  shows "\<exists>n\<in>set p. fst n = c"
  using assms
proof (induction p)
  case Nil
  then show ?case by simp
next
  case (Cons x xs)
  show ?case
  proof (cases xs)
    case Nil
    with Cons.prems show ?thesis by simp
  next
    case (Cons y ys)
    with Cons.prems have adj: "adjacent x y" and rest: "successively adjacent xs"
      by simp_all
    from adj have "fst y \<le> fst x + 1"
      by (simp add: adjacent_def)
    with Cons.prems(3) have le: "fst y \<le> c" by simp
    show ?thesis
    proof (cases "fst y = c")
      case True
      with Cons show ?thesis by auto
    next
      case False
      with le have "fst (hd xs) < c" using Cons by simp
      moreover have "c < fst (last xs)" using Cons.prems(4) Cons by simp
      moreover have "xs \<noteq> []" using Cons by simp
      ultimately have "\<exists>n\<in>set xs. fst n = c"
        using rest by (intro Cons.IH)
      then show ?thesis by auto
    qed
  qed
qed

text \<open>
  Claim C8. For every start, goal and terrain list the pathfinder returns. A returned
  path holds no blocked node (outside the board, or inside a terrain rectangle under the
  half-open test); it is the full sequence of nodes from the rounded start to the rounded
  goal, both included, each node a 4-neighbour of the one before. The result is
  \<^verbatim>\<open>null\<close> whenever the rounded start or the rounded goal is blocked, and whenever no
  4-connected route of unblocked nodes joins them.
\<close>

theorem findPathManhattan_sound:
  fixes start goal :: Vec2 and terrain :: "TerrainPiece list" and B :: int
  defines "s \<equiv> (round_js (vx start), round_js (vy start))"
    and "gl \<equiv> (round_js (vx goal), round_js (vy goal))"
  shows "(\<exists>res. findPathManhattan start goal terrain B = Some res)
    \<and> (\<forall>p. findPathManhattan start goal terrain B = Some (Some p) \<longrightarrow>
          (\<forall>n\<in>set p. \<not> isBlocked B terrain n)
          \<and> p \<noteq> [] \<and> hd p = s \<and> last p = gl \<and> successively adjacent p)
    \<and> (isBlocked B terrain s \<or> isBlocked B terrain gl \<longrightarrow>
          findPathManhattan start goal terrain B = Some None)
    \<and> (\<not> (\<exists>p. isRoute B terrain s gl p) \<longrightarrow>
          findPathManhattan start goal terrain B = Some None)"
proof -
  have c: "findPathManhattan start goal terrain B = Some None
     \<or> (\<exists>p. findPathManhattan start goal terrain B = Some (Some p) \<and> isRoute B terrain s gl p)"
    unfolding s_def gl_def by (rule findPath_cases)
  have b: "findPathManhattan start goal terrain B = Some None"
    if "isBlocked B terrain s \<or> isBlocked B terrain gl"
    using that by (auto simp: findPathManhattan_def s_def gl_def Let_def)
  from c b show ?thesis
    by (auto simp: isRoute_def list_all_iff)
qed

theorem findPathManhattan_sound_witness:
  "findPathManhattan \<lparr>vx = 0, vy = 0\<rparr> \<lparr>vx = 2, vy = 0\<rparr> exampleWall 2
     = Some (Some [(0, 0), (0, 1), (0, 2), (1, 2), (2, 2), (2, 1), (2, 0)])
   \<and> list_all (\<lambda>n. \<not> isBlocked 2 exampleWall n)
         [(0, 0), (0, 1), (0, 2), (1, 2), (2, 2), (2, 1), (2, 0)]
   \<and> findPathManhattan \<lparr>vx = 1, vy = 0\<rparr> \<lparr>vx = 2, vy = 0\<rparr> exampleWall 2 = Some None
   \<and> findPathManhattan \<lparr>vx = 0, vy = 0\<rparr> \<lparr>vx = 2, vy = 0\<rparr> exampleColumn 2 = Some None"
proof -
  have rd: "round_js 0 = 0" "round_js 1 = 1" "round_js 2 = 2"
    by (simp_all add: round_js_def)
  have e: "findPathManhattan \<lparr>vx = 0, vy = 0\<rparr> \<lparr>vx = 2, vy = 0\<rparr> exampleWall 2
     = Some (Some [(0, 0), (0, 1), (0, 2), (1, 2), (2, 2), (2, 1), (2, 0)])"
    by (simp add: path_eval exampleWall_def)
  have "\<forall>n\<in>set [(0, 0), (0, 1), (0, 2), (1, 2), (2, 2), (2, 1), (2, 0)]. \<not> isBlocked 2 exampleWall n"
    using findPathManhattan_sound[of "\<lparr>vx = 0, vy = 0\<rparr>" "\<lparr>vx = 2, vy = 0\<rparr>" exampleWall 2] e
    by blast
  then have one: "list_all (\<lambda>n. \<not> isBlocked 2 exampleWall n)
      [(0, 0), (0, 1), (0, 2), (1, 2), (2, 2), (2, 1), (2, 0)]"
    unfolding list_all_iff .
  have blk: "isBlocked 2 exampleWall (1, 0)"
    by (simp add: isBlocked_def exampleWall_def)
  have two: "findPathManhattan \<lparr>vx = 1, vy = 0\<rparr> \<lparr>vx = 2, vy = 0\<rparr> exampleWall 2 = Some None"
    using findPathManhattan_sound[of "\<lparr>vx = 1, vy = 0\<rparr>" "\<lparr>vx = 2, vy = 0\<rparr>" exampleWall 2] blk
    by (simp add: rd)
  have col: "isBlocked 2 exampleColumn n" if "fst n = 1" for n
    using that by (cases n) (auto simp: isBlocked_def exampleColumn_def)
  have none: "\<not> (\<exists>p. isRoute 2 exampleColumn (0, 0) (2, 0) p)"
  proof
    assume "\<exists>p. isRoute 2 exampleColumn (0, 0) (2, 0) p"
    then obtain p where p: "p \<noteq> []" "hd p = (0, 0)" "last p = (2, 0)"
      "list_all (\<lambda>n. \<not> isBlocked 2 exampleColumn n) p" "successively adjacent p"
      by (auto simp: isRoute_def)
    from route_crosses_column[OF p(5) p(1), of 1] p(2,3)
    obtain n where n: "n \<in> set p" "fst n = 1" by auto
    from col[OF n(2)] have "isBlocked 2 exampleColumn n" .
    moreover from p(4) n(1) have "\<not> isBlocked 2 exampleColumn n"
      by (simp add: list_all_iff)
    ultimately show False by contradiction
  qed
  have three: "findPathManhattan \<lparr>vx = 0, vy = 0\<rparr> \<lparr>vx = 2, vy = 0\<rparr> exampleColumn 2 = Some None"
    using findPathManhattan_sound[of "\<lparr>vx = 0, vy = 0\<rparr>" "\<lparr>vx = 2, vy = 0\<rparr>" exampleColumn 2] none
    by (simp add: rd)
  from e one two three show ?thesis by blast
qed


end
